theory Spec2Isabelle
  imports
    Complex_Main
    "HOL-Library.AList"
    "HOL-Library.Multiset"
    "HOL-Library.Product_Lexorder"
    "HOL-Library.List_Lexorder"
    "HOL-Library.Log_Nat"
begin

section \<open>La Congolaise review backend (backend/server.py)\<close>

text \<open>
  The service is a set of route handlers over two collections of a document store. The
  model follows the handlers of \<^verbatim>\<open>server.py\<close> one by one. What the handlers take from
  their environment is passed in explicitly: the identifier produced by \<^verbatim>\<open>uuid.uuid4()\<close>,
  the reading of \<^verbatim>\<open>datetime.now(timezone.utc)\<close> and the storage identifier the driver
  attaches on insertion. The store is threaded through as a value.
\<close>

subsection \<open>Values\<close>

text \<open>
  A Python \<^verbatim>\<open>str\<close> is a sequence of code points; its length counts code points (this is
  what the length bounds of the schema count). Dictionary keys are the fixed field names of
  the source and are written as HOL strings.
\<close>

type_synonym pystr = "nat list"

definition py_str :: "string \<Rightarrow> pystr" where
  "py_str s = map of_char s"

text \<open>
  An aware UTC \<^verbatim>\<open>datetime\<close>, as \<^verbatim>\<open>datetime.now(timezone.utc)\<close> produces it.
\<close>

record datetime =
  year :: nat
  month :: nat
  day :: nat
  hour :: nat
  minute :: nat
  second :: nat
  microsecond :: nat

datatype pyval =
    PNone
  | PInt int
  | PStr pystr
  | PObjectId nat
  | PDatetime datetime

text \<open>A document (a Python \<^verbatim>\<open>dict\<close>): keys in insertion order.\<close>

type_synonym doc = "(string \<times> pyval) list"

datatype error =
    ValidationError
  | KeyError
  | ValueError
  | TypeError
  | AttributeError

subsection \<open>Models (lines 31-68)\<close>

datatype SortOrder = DATE_DESC | DATE_ASC | RATING_DESC | RATING_ASC

definition SortOrder_value :: "SortOrder \<Rightarrow> pystr" where
  "SortOrder_value s = (case s of
       DATE_DESC \<Rightarrow> py_str ''date_desc''
     | DATE_ASC \<Rightarrow> py_str ''date_asc''
     | RATING_DESC \<Rightarrow> py_str ''rating_desc''
     | RATING_ASC \<Rightarrow> py_str ''rating_asc'')"

record Review =
  review_id :: pystr
  review_name :: pystr
  review_rating :: int
  review_comment :: "pystr option"
  review_created_at :: datetime

record ReviewCreate =
  name :: pystr
  rating :: int
  comment :: "pystr option"

record ReviewStats =
  average_rating :: rat
  total_reviews :: int

record StatusCheck =
  status_id :: pystr
  status_client_name :: pystr
  status_timestamp :: datetime

record StatusCheckCreate =
  client_name :: pystr

text \<open>
  A request body is taken as parsed into the declared field types (a string, an integer,
  an optional string); a body of another shape never reaches the handlers. The field
  constraints of \<^verbatim>\<open>ReviewCreate\<close> (lines 48-51), checked by the framework on the
  parsed request body before the handler runs:
  \<^verbatim>\<open>name: min_length=1, max_length=100\<close>, \<^verbatim>\<open>rating: ge=1, le=5\<close>,
  \<^verbatim>\<open>comment: default None, max_length=500\<close>.
\<close>

definition ReviewCreate_validate :: "ReviewCreate \<Rightarrow> error + ReviewCreate" where
  "ReviewCreate_validate p =
     (if length (name p) < 1 \<or> 100 < length (name p) then Inl ValidationError
      else if rating p < 1 \<or> 5 < rating p then Inl ValidationError
      else (case comment p of
              None \<Rightarrow> Inr p
            | Some c \<Rightarrow> if 500 < length c then Inl ValidationError else Inr p))"

text \<open>\<^verbatim>\<open>StatusCheckCreate\<close> (lines 67-68) declares \<^verbatim>\<open>client_name: str\<close> and nothing else.\<close>

definition StatusCheckCreate_validate :: "StatusCheckCreate \<Rightarrow> error + StatusCheckCreate" where
  "StatusCheckCreate_validate p = Inr p"

text \<open>
  Constructing a \<^verbatim>\<open>Review\<close> (lines 38-45): \<^verbatim>\<open>rating\<close> carries \<^verbatim>\<open>ge=1, le=5\<close> again,
  \<^verbatim>\<open>name\<close> and \<^verbatim>\<open>comment\<close> are unconstrained, \<^verbatim>\<open>id\<close> and \<^verbatim>\<open>created_at\<close> come from their
  default factories.
\<close>

definition Review_init :: "pystr \<Rightarrow> datetime \<Rightarrow> pystr \<Rightarrow> int \<Rightarrow> pystr option \<Rightarrow> error + Review" where
  "Review_init uuid now n r c =
     (if r < 1 \<or> 5 < r then Inl ValidationError
      else Inr \<lparr>review_id = uuid, review_name = n, review_rating = r,
                review_comment = c, review_created_at = now\<rparr>)"

definition StatusCheck_init :: "pystr \<Rightarrow> datetime \<Rightarrow> pystr \<Rightarrow> error + StatusCheck" where
  "StatusCheck_init uuid now c =
     Inr \<lparr>status_id = uuid, status_client_name = c, status_timestamp = now\<rparr>"

text \<open>\<^verbatim>\<open>model_dump()\<close>: the fields in declaration order.\<close>

definition opt_val :: "pystr option \<Rightarrow> pyval" where
  "opt_val c = (case c of None \<Rightarrow> PNone | Some s \<Rightarrow> PStr s)"

definition Review_model_dump :: "Review \<Rightarrow> doc" where
  "Review_model_dump r =
     [(''id'', PStr (review_id r)),
      (''name'', PStr (review_name r)),
      (''rating'', PInt (review_rating r)),
      (''comment'', opt_val (review_comment r)),
      (''created_at'', PDatetime (review_created_at r))]"

definition StatusCheck_model_dump :: "StatusCheck \<Rightarrow> doc" where
  "StatusCheck_model_dump s =
     [(''id'', PStr (status_id s)),
      (''client_name'', PStr (status_client_name s)),
      (''timestamp'', PDatetime (status_timestamp s))]"

definition StatusCheckCreate_model_dump :: "StatusCheckCreate \<Rightarrow> doc" where
  "StatusCheckCreate_model_dump p = [(''client_name'', PStr (client_name p))]"

subsection \<open>Timestamps as text\<close>

text \<open>
  \<^verbatim>\<open>datetime.isoformat()\<close> of an aware UTC value:
  \<^verbatim>\<open>YYYY-MM-DDTHH:MM:SS+00:00\<close>, with \<^verbatim>\<open>.ffffff\<close> after the seconds when the
  microsecond field is not zero. Digits are the code points 48 to 57.
\<close>

fun pad :: "nat \<Rightarrow> nat \<Rightarrow> pystr" where
  "pad 0 n = []"
| "pad (Suc k) n = pad k (n div 10) @ [48 + n mod 10]"

definition utc_suffix :: pystr where
  "utc_suffix = [43, 48, 48, 58, 48, 48]"

definition fraction :: "nat \<Rightarrow> pystr" where
  "fraction us = (if us = 0 then [] else 46 # pad 6 us)"

definition isoformat :: "datetime \<Rightarrow> pystr" where
  "isoformat d =
     pad 4 (year d) @ 45 # pad 2 (month d) @ 45 # pad 2 (day d) @ 84 #
     pad 2 (hour d) @ 58 # pad 2 (minute d) @ 58 # pad 2 (second d) @
     fraction (microsecond d) @ utc_suffix"

definition is_leap :: "nat \<Rightarrow> bool" where
  "is_leap y = (y mod 4 = 0 \<and> (y mod 100 \<noteq> 0 \<or> y mod 400 = 0))"

definition days_in_month :: "nat \<Rightarrow> nat \<Rightarrow> nat" where
  "days_in_month y m =
     (if m = 2 then (if is_leap y then 29 else 28)
      else if m = 4 \<or> m = 6 \<or> m = 9 \<or> m = 11 then 30 else 31)"

definition valid_datetime :: "datetime \<Rightarrow> bool" where
  "valid_datetime d =
     (1 \<le> year d \<and> year d \<le> 9999 \<and> 1 \<le> month d \<and> month d \<le> 12 \<and>
      1 \<le> day d \<and> day d \<le> days_in_month (year d) (month d) \<and>
      hour d < 24 \<and> minute d < 60 \<and> second d < 60 \<and> microsecond d < 1000000)"

fun digits_val :: "nat \<Rightarrow> pystr \<Rightarrow> nat option" where
  "digits_val acc [] = Some acc"
| "digits_val acc (c # cs) =
     (if 48 \<le> c \<and> c \<le> 57 then digits_val (10 * acc + (c - 48)) cs else None)"

definition field :: "pystr \<Rightarrow> nat \<Rightarrow> nat \<Rightarrow> nat option" where
  "field s i k = digits_val 0 (take k (drop i s))"

text \<open>
  \<^verbatim>\<open>datetime.fromisoformat\<close> on the two shapes above: fields at fixed positions,
  separators checked, field ranges checked, \<^verbatim>\<open>ValueError\<close> otherwise. (CPython also reads
  other ISO 8601 shapes, naive values and other offsets; the service writes none of these,
  and they are answered here with \<^verbatim>\<open>ValueError\<close>.)
\<close>

definition mk_datetime ::
  "nat option \<Rightarrow> nat option \<Rightarrow> nat option \<Rightarrow> nat option \<Rightarrow> nat option \<Rightarrow> nat option \<Rightarrow>
   nat option \<Rightarrow> error + datetime" where
  "mk_datetime y mo d h mi s us =
     (case (y, mo, d, h, mi, s, us) of
        (Some y', Some mo', Some d', Some h', Some mi', Some s', Some us') \<Rightarrow>
          (let t = \<lparr>year = y', month = mo', day = d', hour = h', minute = mi',
                    second = s', microsecond = us'\<rparr>
           in if valid_datetime t then Inr t else Inl ValueError)
      | _ \<Rightarrow> Inl ValueError)"

definition fromisoformat :: "pystr \<Rightarrow> error + datetime" where
  "fromisoformat s =
     (if (length s = 25 \<or> length s = 32) \<and>
         s ! 4 = 45 \<and> s ! 7 = 45 \<and> s ! 10 = 84 \<and> s ! 13 = 58 \<and> s ! 16 = 58 \<and>
         drop (length s - 6) s = utc_suffix \<and>
         (length s = 32 \<longrightarrow> s ! 19 = 46)
      then mk_datetime (field s 0 4) (field s 5 2) (field s 8 2) (field s 11 2)
             (field s 14 2) (field s 17 2)
             (if length s = 32 then field s 20 6 else Some 0)
      else Inl ValueError)"

subsection \<open>The document store\<close>

text \<open>
  Two collections, each the list of its documents in insertion order (the store's natural
  order).
\<close>

record db_state =
  reviews :: "doc list"
  status_checks :: "doc list"

definition empty_db :: db_state where
  "empty_db = \<lparr>reviews = [], status_checks = []\<rparr>"

text \<open>\<^verbatim>\<open>insert_one\<close>: the document is stored under a storage identifier \<^verbatim>\<open>_id\<close>.\<close>

definition insert_one :: "nat \<Rightarrow> doc \<Rightarrow> doc list \<Rightarrow> doc list" where
  "insert_one oid d coll = coll @ [(''_id'', PObjectId oid) # d]"

text \<open>
  The store's comparison of field values: a missing field counts as null; null sorts before
  numbers, numbers before strings, strings before storage identifiers, those before dates.
  Strings compare code point by code point, dates chronologically.
\<close>

definition datetime_key :: "datetime \<Rightarrow> nat list" where
  "datetime_key d = [year d, month d, day d, hour d, minute d, second d, microsecond d]"

fun bson_key :: "pyval option \<Rightarrow> nat \<times> int \<times> nat list" where
  "bson_key None = (0, 0, [])"
| "bson_key (Some PNone) = (0, 0, [])"
| "bson_key (Some (PInt i)) = (1, i, [])"
| "bson_key (Some (PStr s)) = (2, 0, s)"
| "bson_key (Some (PObjectId n)) = (3, int n, [])"
| "bson_key (Some (PDatetime d)) = (4, 0, datetime_key d)"

text \<open>
  \<^verbatim>\<open>cursor.sort([(k1, d1), (k2, d2), ...])\<close>: ordered by the first key, ties by the next one;
  direction \<^verbatim>\<open>1\<close> ascending, \<^verbatim>\<open>-1\<close> descending. Realised as stable sorts applied from the
  last key to the first. Documents equal on every key stay in natural order (the store
  promises no order among them).
\<close>

fun sort_by_field :: "string \<times> int \<Rightarrow> doc list \<Rightarrow> doc list" where
  "sort_by_field (k, dir) ds =
     (if dir < 0 then rev (sort_key (\<lambda>d. bson_key (map_of d k)) (rev ds))
      else sort_key (\<lambda>d. bson_key (map_of d k)) ds)"

definition mongo_sort :: "(string \<times> int) list \<Rightarrow> doc list \<Rightarrow> doc list" where
  "mongo_sort spec ds = foldr sort_by_field spec ds"

text \<open>\<^verbatim>\<open>find({}, {"_id": 0})\<close>: every document, the storage identifier projected away.\<close>

definition project_no_id :: "doc \<Rightarrow> doc" where
  "project_no_id d = AList.delete ''_id'' d"

subsection \<open>Review routes (lines 78-134)\<close>

text \<open>The handler body of \<^verbatim>\<open>create_review\<close>, on an already validated input.\<close>

definition dump_isoformat :: "string \<Rightarrow> doc \<Rightarrow> error + doc" where
  "dump_isoformat k d =
     (case map_of d k of
        None \<Rightarrow> Inl KeyError
      | Some (PDatetime t) \<Rightarrow> Inr (AList.update k (PStr (isoformat t)) d)
      | Some _ \<Rightarrow> Inl AttributeError)"

definition create_review ::
  "db_state \<Rightarrow> pystr \<Rightarrow> datetime \<Rightarrow> nat \<Rightarrow> ReviewCreate \<Rightarrow> (error + Review) \<times> db_state" where
  "create_review db uuid now oid review_input =
     (case Review_init uuid now (name review_input) (rating review_input) (comment review_input) of
        Inl e \<Rightarrow> (Inl e, db)
      | Inr review \<Rightarrow>
          (case dump_isoformat ''created_at'' (Review_model_dump review) of
             Inl e \<Rightarrow> (Inl e, db)
           | Inr d \<Rightarrow> (Inr review, db\<lparr>reviews := insert_one oid d (reviews db)\<rparr>)))"

text \<open>\<^verbatim>\<open>POST /reviews\<close>: the body is validated as \<^verbatim>\<open>ReviewCreate\<close>, then the handler runs.\<close>

definition post_reviews ::
  "db_state \<Rightarrow> pystr \<Rightarrow> datetime \<Rightarrow> nat \<Rightarrow> ReviewCreate \<Rightarrow> (error + Review) \<times> db_state" where
  "post_reviews db uuid now oid body =
     (case ReviewCreate_validate body of
        Inl e \<Rightarrow> (Inl e, db)
      | Inr review_input \<Rightarrow> create_review db uuid now oid review_input)"

definition sort_options :: "SortOrder \<Rightarrow> (string \<times> int) list" where
  "sort_options s = (case s of
       DATE_DESC \<Rightarrow> [(''created_at'', -1)]
     | DATE_ASC \<Rightarrow> [(''created_at'', 1)]
     | RATING_DESC \<Rightarrow> [(''rating'', -1), (''created_at'', -1)]
     | RATING_ASC \<Rightarrow> [(''rating'', 1), (''created_at'', -1)])"

text \<open>
  The loop of \<^verbatim>\<open>get_reviews\<close> (lines 106-108): \<^verbatim>\<open>review.get('created_at')\<close> is
  \<^verbatim>\<open>None\<close> for a missing key, and only a \<^verbatim>\<open>str\<close> is parsed. The handlers return
  the list of dictionaries they built; what the framework does with it afterwards is not
  part of the model.
\<close>

definition review_parse_created_at :: "doc \<Rightarrow> error + doc" where
  "review_parse_created_at review =
     (case map_of review ''created_at'' of
        Some (PStr s) \<Rightarrow>
          (case fromisoformat s of
             Inl e \<Rightarrow> Inl e
           | Inr t \<Rightarrow> Inr (AList.update ''created_at'' (PDatetime t) review))
      | _ \<Rightarrow> Inr review)"

fun for_each :: "(doc \<Rightarrow> error + doc) \<Rightarrow> doc list \<Rightarrow> error + doc list" where
  "for_each f [] = Inr []"
| "for_each f (d # ds) =
     (case f d of
        Inl e \<Rightarrow> Inl e
      | Inr d' \<Rightarrow> (case for_each f ds of Inl e \<Rightarrow> Inl e | Inr ds' \<Rightarrow> Inr (d' # ds')))"

definition get_reviews :: "db_state \<Rightarrow> SortOrder \<Rightarrow> error + doc list" where
  "get_reviews db sort_order =
     for_each review_parse_created_at
       (take 1000 (map project_no_id (mongo_sort (sort_options sort_order) (reviews db))))"

text \<open>
  \<^verbatim>\<open>GET /reviews?sort=...\<close>: the query parameter is absent or a string; it is parsed into
  the enumeration (line 95) before the handler runs.
\<close>

definition SortOrder_parse :: "pystr option \<Rightarrow> error + SortOrder" where
  "SortOrder_parse q =
     (case q of
        None \<Rightarrow> Inr DATE_DESC
      | Some v \<Rightarrow>
          if v = SortOrder_value DATE_DESC then Inr DATE_DESC
          else if v = SortOrder_value DATE_ASC then Inr DATE_ASC
          else if v = SortOrder_value RATING_DESC then Inr RATING_DESC
          else if v = SortOrder_value RATING_ASC then Inr RATING_ASC
          else Inl ValidationError)"

definition get_reviews_route :: "db_state \<Rightarrow> pystr option \<Rightarrow> error + doc list" where
  "get_reviews_route db q =
     (case SortOrder_parse q of Inl e \<Rightarrow> Inl e | Inr sort_order \<Rightarrow> get_reviews db sort_order)"

text \<open>
  The \<^verbatim>\<open>$group\<close> stage of \<^verbatim>\<open>get_review_stats\<close> (lines 116-124), one pass over the
  collection with three accumulators: the sum and the number of the numeric \<^verbatim>\<open>rating\<close>
  values (\<^verbatim>\<open>$avg\<close> skips a missing or non-numeric one) and the number of documents
  (\<^verbatim>\<open>$sum: 1\<close>). An empty collection yields no group; a group without any numeric rating
  has a null average.
\<close>

fun group_step :: "doc \<Rightarrow> int \<times> int \<times> int \<Rightarrow> int \<times> int \<times> int" where
  "group_step d (s, k, c) =
     (case map_of d ''rating'' of
        Some (PInt i) \<Rightarrow> (s + i, k + 1, c + 1)
      | _ \<Rightarrow> (s, k, c + 1))"

text \<open>
  The store divides in binary floating point: the quotient is the double nearest to
  \<^verbatim>\<open>s / n\<close>, ties to the even significand (53 bits; the exponent range of doubles is not
  modelled). A double is represented by the rational it denotes.
\<close>

definition round_half_even :: "rat \<Rightarrow> int" where
  "round_half_even x =
     (let f = \<lfloor>x\<rfloor>; d = x - of_int f
      in if d < 1 / 2 then f else if 1 / 2 < d then f + 1 else if even f then f else f + 1)"

definition binary_exponent :: "int \<Rightarrow> int \<Rightarrow> int" where
  "binary_exponent a b =
     (let e = bitlen a - bitlen b
      in if (2::rat) powi e \<le> of_int a / of_int b then e else e - 1)"

definition binary64_div :: "int \<Rightarrow> int \<Rightarrow> rat" where
  "binary64_div s n =
     (if s = 0 then 0
      else (let e = binary_exponent \<bar>s\<bar> n;
                m = round_half_even (of_int \<bar>s\<bar> / of_int n * 2 powi (52 - e))
            in of_int (sgn s) * of_int m * 2 powi (e - 52)))"

definition aggregate_group :: "doc list \<Rightarrow> (rat option \<times> int) list" where
  "aggregate_group ds =
     (if ds = [] then []
      else (case fold group_step ds (0, 0, 0) of
              (s, k, c) \<Rightarrow> [(if k = 0 then None else Some (binary64_div s k), c)]))"

text \<open>
  \<^verbatim>\<open>round(x, 1)\<close> on a double: the one-decimal number nearest to the exact value of
  \<^verbatim>\<open>x\<close>, ties to the even digit; the result is the double that prints as that decimal,
  represented here by the decimal itself.
\<close>

definition py_round1 :: "rat \<Rightarrow> rat" where
  "py_round1 x = of_int (round_half_even (x * 10)) / 10"

definition get_review_stats :: "db_state \<Rightarrow> error + ReviewStats" where
  "get_review_stats db =
     (case take 1 (aggregate_group (reviews db)) of
        [] \<Rightarrow> Inr \<lparr>average_rating = 0, total_reviews = 0\<rparr>
      | (avg, cnt) # _ \<Rightarrow>
          (case avg of
             None \<Rightarrow> Inl TypeError
           | Some a \<Rightarrow> Inr \<lparr>average_rating = py_round1 a, total_reviews = cnt\<rparr>))"

subsection \<open>Status routes (lines 138-158)\<close>

definition create_status_check ::
  "db_state \<Rightarrow> pystr \<Rightarrow> datetime \<Rightarrow> nat \<Rightarrow> StatusCheckCreate \<Rightarrow> (error + StatusCheck) \<times> db_state" where
  "create_status_check db uuid now oid input =
     (case map_of (StatusCheckCreate_model_dump input) ''client_name'' of
        Some (PStr c) \<Rightarrow>
          (case StatusCheck_init uuid now c of
             Inl e \<Rightarrow> (Inl e, db)
           | Inr status_obj \<Rightarrow>
               (case dump_isoformat ''timestamp'' (StatusCheck_model_dump status_obj) of
                  Inl e \<Rightarrow> (Inl e, db)
                | Inr d \<Rightarrow>
                    (Inr status_obj, db\<lparr>status_checks := insert_one oid d (status_checks db)\<rparr>)))
      | _ \<Rightarrow> (Inl ValidationError, db))"

definition post_status ::
  "db_state \<Rightarrow> pystr \<Rightarrow> datetime \<Rightarrow> nat \<Rightarrow> StatusCheckCreate \<Rightarrow> (error + StatusCheck) \<times> db_state" where
  "post_status db uuid now oid body =
     (case StatusCheckCreate_validate body of
        Inl e \<Rightarrow> (Inl e, db)
      | Inr input \<Rightarrow> create_status_check db uuid now oid input)"

text \<open>
  The loop of \<^verbatim>\<open>get_status_checks\<close> (lines 154-156): \<^verbatim>\<open>check['timestamp']\<close> raises
  \<^verbatim>\<open>KeyError\<close> for a missing key.
\<close>

definition status_parse_timestamp :: "doc \<Rightarrow> error + doc" where
  "status_parse_timestamp check =
     (case map_of check ''timestamp'' of
        None \<Rightarrow> Inl KeyError
      | Some (PStr s) \<Rightarrow>
          (case fromisoformat s of
             Inl e \<Rightarrow> Inl e
           | Inr t \<Rightarrow> Inr (AList.update ''timestamp'' (PDatetime t) check))
      | Some _ \<Rightarrow> Inr check)"

definition get_status_checks :: "db_state \<Rightarrow> error + doc list" where
  "get_status_checks db =
     for_each status_parse_timestamp (take 1000 (map project_no_id (status_checks db)))"

subsection \<open>The routes that write\<close>

text \<open>
  Only the two \<^verbatim>\<open>POST\<close> routes change the store. A request carries, besides its body, what
  the handler draws from its environment while serving it.
\<close>

datatype request =
    POST_reviews pystr datetime nat ReviewCreate
  | POST_status pystr datetime nat StatusCheckCreate

datatype response =
    Review_response "error + Review"
  | Status_response "error + StatusCheck"

fun serve :: "db_state \<Rightarrow> request \<Rightarrow> response \<times> db_state" where
  "serve db (POST_reviews uuid now oid body) =
     (case post_reviews db uuid now oid body of (r, db') \<Rightarrow> (Review_response r, db'))"
| "serve db (POST_status uuid now oid body) =
     (case post_status db uuid now oid body of (r, db') \<Rightarrow> (Status_response r, db'))"

fun serve_all :: "db_state \<Rightarrow> request list \<Rightarrow> response list \<times> db_state" where
  "serve_all db [] = ([], db)"
| "serve_all db (q # qs) =
     (case serve db q of (r, db') \<Rightarrow>
        (case serve_all db' qs of (rs, db'') \<Rightarrow> (r # rs, db'')))"

fun request_time :: "request \<Rightarrow> datetime" where
  "request_time (POST_reviews uuid now oid body) = now"
| "request_time (POST_status uuid now oid body) = now"

text \<open>The records handed back by the successful creations, in order.\<close>

fun created_reviews :: "response list \<Rightarrow> Review list" where
  "created_reviews [] = []"
| "created_reviews (Review_response (Inr r) # rs) = r # created_reviews rs"
| "created_reviews (_ # rs) = created_reviews rs"

fun created_status_checks :: "response list \<Rightarrow> StatusCheck list" where
  "created_status_checks [] = []"
| "created_status_checks (Status_response (Inr s) # rs) = s # created_status_checks rs"
| "created_status_checks (_ # rs) = created_status_checks rs"

subsection \<open>Predicates of the data model\<close>

text \<open>The bounds of a review (section 3 of the specification), read off a stored document.\<close>

definition review_within_bounds :: "doc \<Rightarrow> bool" where
  "review_within_bounds d =
     ((case map_of d ''name'' of
         Some (PStr n) \<Rightarrow> 1 \<le> length n \<and> length n \<le> 100 | _ \<Rightarrow> False) \<and>
      (case map_of d ''rating'' of
         Some (PInt r) \<Rightarrow> 1 \<le> r \<and> r \<le> 5 | _ \<Rightarrow> False) \<and>
      (case map_of d ''comment'' of
         Some PNone \<Rightarrow> True | Some (PStr c) \<Rightarrow> length c \<le> 500 | _ \<Rightarrow> False))"

definition stored_ratings :: "doc list \<Rightarrow> int list" where
  "stored_ratings ds =
     map (\<lambda>d. case map_of d ''rating'' of Some (PInt i) \<Rightarrow> i | _ \<Rightarrow> 0) ds"

definition valid_payload :: "ReviewCreate \<Rightarrow> bool" where
  "valid_payload p =
     (1 \<le> length (name p) \<and> length (name p) \<le> 100 \<and> 1 \<le> rating p \<and> rating p \<le> 5 \<and>
      (case comment p of None \<Rightarrow> True | Some c \<Rightarrow> length c \<le> 500))"

text \<open>
  The documents the creation handlers hand to \<^verbatim>\<open>insert_one\<close> for a record: its dump with
  the time field replaced by the ISO text (lines 87-88 and 143-144).
\<close>

definition review_document :: "Review \<Rightarrow> doc" where
  "review_document r =
     AList.update ''created_at'' (PStr (isoformat (review_created_at r))) (Review_model_dump r)"

definition status_document :: "StatusCheck \<Rightarrow> doc" where
  "status_document s =
     AList.update ''timestamp'' (PStr (isoformat (status_timestamp s))) (StatusCheck_model_dump s)"

text \<open>
  The store's ordering carried over to the records behind the stored documents: the same
  stable sorts, keyed by the fields of the document written for each record.
\<close>

fun sort_reviews_by :: "string \<times> int \<Rightarrow> Review list \<Rightarrow> Review list" where
  "sort_reviews_by (k, dir) rs =
     (if dir < 0 then rev (sort_key (\<lambda>r. bson_key (map_of (review_document r) k)) (rev rs))
      else sort_key (\<lambda>r. bson_key (map_of (review_document r) k)) rs)"

definition sort_reviews :: "(string \<times> int) list \<Rightarrow> Review list \<Rightarrow> Review list" where
  "sort_reviews spec rs = foldr sort_reviews_by spec rs"

text \<open>
  The orders of the rating-based listings, in the words of the specification: by rating
  (descending or ascending), and among equal ratings the newer creation time first.
\<close>

definition newest_first :: "Review \<Rightarrow> Review \<Rightarrow> bool" where
  "newest_first a b =
     (datetime_key (review_created_at b) \<le> datetime_key (review_created_at a))"

definition rating_desc_order :: "Review \<Rightarrow> Review \<Rightarrow> bool" where
  "rating_desc_order a b =
     (review_rating b < review_rating a \<or>
      (review_rating a = review_rating b \<and> newest_first a b))"

definition rating_asc_order :: "Review \<Rightarrow> Review \<Rightarrow> bool" where
  "rating_asc_order a b =
     (review_rating a < review_rating b \<or>
      (review_rating a = review_rating b \<and> newest_first a b))"

text \<open>The record \<^verbatim>\<open>create_review\<close> builds from a payload, an identifier and a time.\<close>

definition review_of :: "pystr \<Rightarrow> datetime \<Rightarrow> ReviewCreate \<Rightarrow> Review" where
  "review_of uuid now p =
     \<lparr>review_id = uuid, review_name = name p, review_rating = rating p,
      review_comment = comment p, review_created_at = now\<rparr>"

subsection \<open>Sample inputs\<close>

definition sample_time :: "nat \<Rightarrow> datetime" where
  "sample_time n = \<lparr>year = 2024, month = 5, day = 17, hour = 12, minute = 30,
                    second = n, microsecond = 0\<rparr>"

definition sample_review :: "nat \<Rightarrow> int \<Rightarrow> request" where
  "sample_review n r =
     POST_reviews [105, 100, 48 + n] (sample_time n) n
       \<lparr>name = py_str ''Marie'', rating = r, comment = None\<rparr>"

definition five_reviews :: "request list" where
  "five_reviews =
     [sample_review 1 5, sample_review 2 4, sample_review 3 3, sample_review 4 5,
      sample_review 5 2]"

definition sample_requests :: "request list" where
  "sample_requests =
     [sample_review 1 5,
      POST_status [115] (sample_time 2) 9 \<lparr>client_name = py_str ''web''\<rparr>]"

definition sample_status_doc :: doc where
  "sample_status_doc =
     [(''_id'', PObjectId 0), (''id'', PStr [105, 100]), (''client_name'', PStr (py_str ''web'')),
      (''timestamp'', PStr (isoformat (sample_time 0)))]"

definition sample_status_listed :: doc where
  "sample_status_listed =
     [(''id'', PStr [105, 100]), (''client_name'', PStr (py_str ''web'')),
      (''timestamp'', PDatetime (sample_time 0))]"

text \<open>A status document written by some other client of the store, without a timestamp.\<close>

definition foreign_status_doc :: doc where
  "foreign_status_doc = [(''_id'', PObjectId 1), (''client_name'', PStr (py_str ''cron''))]"

definition foreign_review_doc :: doc where
  "foreign_review_doc =
     [(''_id'', PObjectId 2), (''name'', PStr (py_str ''Marie'')), (''rating'', PInt 4)]"

section \<open>Properties\<close>

subsection \<open>Creation\<close>

lemma ReviewCreate_validate_iff:
  "ReviewCreate_validate p = (if valid_payload p then Inr p else Inl ValidationError)"
  by (cases "name p")
    (auto simp: ReviewCreate_validate_def valid_payload_def split: option.splits)

lemma post_reviews_valid:
  assumes "valid_payload p"
  shows "post_reviews db uuid now oid p =
           (Inr \<lparr>review_id = uuid, review_name = name p, review_rating = rating p,
                  review_comment = comment p, review_created_at = now\<rparr>,
            db\<lparr>reviews := reviews db @
                 [[(''_id'', PObjectId oid), (''id'', PStr uuid), (''name'', PStr (name p)),
                   (''rating'', PInt (rating p)), (''comment'', opt_val (comment p)),
                   (''created_at'', PStr (isoformat now))]]\<rparr>)"
proof -
  have "Review_init uuid now (name p) (rating p) (comment p) =
      Inr \<lparr>review_id = uuid, review_name = name p, review_rating = rating p,
            review_comment = comment p, review_created_at = now\<rparr>"
    using assms by (simp add: Review_init_def valid_payload_def)
  then show ?thesis
    using assms
    by (simp add: post_reviews_def ReviewCreate_validate_iff create_review_def
        Review_model_dump_def dump_isoformat_def insert_one_def)
qed

lemma post_reviews_invalid:
  "\<not> valid_payload p \<Longrightarrow> post_reviews db uuid now oid p = (Inl ValidationError, db)"
  by (simp add: post_reviews_def ReviewCreate_validate_iff)

lemma post_status_any:
  "post_status db uuid now oid q =
     (Inr \<lparr>status_id = uuid, status_client_name = client_name q, status_timestamp = now\<rparr>,
      db\<lparr>status_checks := status_checks db @
           [[(''_id'', PObjectId oid), (''id'', PStr uuid),
             (''client_name'', PStr (client_name q)),
             (''timestamp'', PStr (isoformat now))]]\<rparr>)"
  by (simp add: post_status_def StatusCheckCreate_validate_def create_status_check_def
      StatusCheckCreate_model_dump_def StatusCheck_init_def StatusCheck_model_dump_def
      dump_isoformat_def insert_one_def)

text \<open>
  C1. For every review-creation payload within the bounds (name of 1 to 100 characters,
  rating from 1 to 5, comment absent or of at most 500 characters), the route returns a
  record with exactly the name, rating and comment of the input, the identifier and the
  creation time just generated, and appends that same record to the review collection (its
  creation time written in ISO text, under a storage identifier). Status creation likewise
  returns and stores the client name it was given.
\<close>

theorem create_review_returns_input:
  assumes "1 \<le> length (name p)" and "length (name p) \<le> 100"
    and "1 \<le> rating p" and "rating p \<le> 5"
    and "\<forall>c. comment p = Some c \<longrightarrow> length c \<le> 500"
  shows "post_reviews db uuid now oid p =
           (Inr \<lparr>review_id = uuid, review_name = name p, review_rating = rating p,
                  review_comment = comment p, review_created_at = now\<rparr>,
            db\<lparr>reviews := reviews db @
                 [[(''_id'', PObjectId oid), (''id'', PStr uuid), (''name'', PStr (name p)),
                   (''rating'', PInt (rating p)), (''comment'', opt_val (comment p)),
                   (''created_at'', PStr (isoformat now))]]\<rparr>)
       \<and> post_status db uuid now oid q =
           (Inr \<lparr>status_id = uuid, status_client_name = client_name q, status_timestamp = now\<rparr>,
            db\<lparr>status_checks := status_checks db @
                 [[(''_id'', PObjectId oid), (''id'', PStr uuid),
                   (''client_name'', PStr (client_name q)),
                   (''timestamp'', PStr (isoformat now))]]\<rparr>)"
proof -
  have "valid_payload p"
    using assms by (auto simp: valid_payload_def split: option.splits)
  then show ?thesis
    by (simp only: post_reviews_valid post_status_any)
qed

theorem create_review_returns_input_witness:
  "post_reviews empty_db [105, 100] (sample_time 0) 7
       \<lparr>name = py_str ''Marie'', rating = 5, comment = Some (py_str ''Excellent'')\<rparr> =
     (Inr \<lparr>review_id = [105, 100], review_name = py_str ''Marie'', review_rating = 5,
            review_comment = Some (py_str ''Excellent''), review_created_at = sample_time 0\<rparr>,
      \<lparr>reviews = [[(''_id'', PObjectId 7), (''id'', PStr [105, 100]),
                   (''name'', PStr (py_str ''Marie'')), (''rating'', PInt 5),
                   (''comment'', PStr (py_str ''Excellent'')),
                   (''created_at'', PStr (isoformat (sample_time 0)))]],
       status_checks = []\<rparr>)
   \<and> post_status empty_db [105, 100] (sample_time 0) 7 \<lparr>client_name = py_str ''web''\<rparr> =
     (Inr \<lparr>status_id = [105, 100], status_client_name = py_str ''web'',
            status_timestamp = sample_time 0\<rparr>,
      \<lparr>reviews = [],
       status_checks = [[(''_id'', PObjectId 7), (''id'', PStr [105, 100]),
                         (''client_name'', PStr (py_str ''web'')),
                         (''timestamp'', PStr (isoformat (sample_time 0)))]]\<rparr>)"
  using create_review_returns_input [of "\<lparr>name = py_str ''Marie'', rating = 5,
      comment = Some (py_str ''Excellent'')\<rparr>" empty_db "[105, 100]" "sample_time 0" 7
      "\<lparr>client_name = py_str ''web''\<rparr>"]
  by (simp add: py_str_def empty_db_def opt_val_def)

lemma serve_within_bounds:
  assumes "list_all review_within_bounds (reviews db)"
  shows "list_all review_within_bounds (reviews (snd (serve db q)))"
proof (cases q)
  case (POST_reviews uuid now oid body)
  show ?thesis
  proof (cases "valid_payload body")
    case True
    then have "review_within_bounds
        [(''_id'', PObjectId oid), (''id'', PStr uuid), (''name'', PStr (name body)),
         (''rating'', PInt (rating body)), (''comment'', opt_val (comment body)),
         (''created_at'', PStr (isoformat now))]"
      by (simp add: review_within_bounds_def valid_payload_def opt_val_def split: option.splits)
    with True assms POST_reviews show ?thesis
      by (simp add: post_reviews_valid)
  next
    case False
    with assms POST_reviews show ?thesis
      by (simp add: post_reviews_invalid)
  qed
next
  case (POST_status uuid now oid body)
  with assms show ?thesis
    by (simp add: post_status_any)
qed

lemma snd_serve_all_Cons:
  "snd (serve_all db (q # qs)) = snd (serve_all (snd (serve db q)) qs)"
  by (simp split: prod.splits)

lemma fst_serve_all_Cons:
  "fst (serve_all db (q # qs)) = fst (serve db q) # fst (serve_all (snd (serve db q)) qs)"
  by (simp split: prod.splits)

lemma serve_all_within_bounds:
  "list_all review_within_bounds (reviews db) \<Longrightarrow>
   list_all review_within_bounds (reviews (snd (serve_all db qs)))"
proof (induction qs arbitrary: db)
  case Nil
  then show ?case by simp
next
  case (Cons q qs)
  from Cons.prems have "list_all review_within_bounds (reviews (snd (serve db q)))"
    by (rule serve_within_bounds)
  then have "list_all review_within_bounds (reviews (snd (serve_all (snd (serve db q)) qs)))"
    by (rule Cons.IH)
  then show ?case
    by (simp only: snd_serve_all_Cons)
qed

text \<open>
  C2. A review-creation payload with a rating outside 1..5, an empty name, a name of more
  than 100 characters or a comment of more than 500 characters fails with a
  \<^verbatim>\<open>ValidationError\<close> and leaves the store unchanged; hence, whatever requests are served,
  a review collection whose documents are within the bounds of the data model stays so.
\<close>

theorem invalid_review_rejected:
  "(rating p < 1 \<or> 5 < rating p \<or> name p = [] \<or> 100 < length (name p) \<or>
      (\<exists>c. comment p = Some c \<and> 500 < length c)
      \<longrightarrow> post_reviews db uuid now oid p = (Inl ValidationError, db))
   \<and> (list_all review_within_bounds (reviews db)
      \<longrightarrow> list_all review_within_bounds (reviews (snd (serve_all db qs))))"
proof (intro conjI impI)
  assume "rating p < 1 \<or> 5 < rating p \<or> name p = [] \<or> 100 < length (name p) \<or>
      (\<exists>c. comment p = Some c \<and> 500 < length c)"
  then have "\<not> valid_payload p"
    by (auto simp: valid_payload_def)
  then show "post_reviews db uuid now oid p = (Inl ValidationError, db)"
    by (rule post_reviews_invalid)
next
  assume "list_all review_within_bounds (reviews db)"
  then show "list_all review_within_bounds (reviews (snd (serve_all db qs)))"
    by (rule serve_all_within_bounds)
qed

theorem invalid_review_rejected_witness:
  "post_reviews empty_db [105, 100] (sample_time 0) 0
       \<lparr>name = py_str ''Test'', rating = 6, comment = None\<rparr> = (Inl ValidationError, empty_db)
   \<and> list_all review_within_bounds (reviews empty_db)
   \<and> list_all review_within_bounds
       (reviews (snd (serve_all empty_db [sample_review 1 5, sample_review 2 0])))"
  using invalid_review_rejected [of "\<lparr>name = py_str ''Test'', rating = 6, comment = None\<rparr>"
      empty_db "[105, 100]" "sample_time 0" 0 "[sample_review 1 5, sample_review 2 0]"]
  by (simp add: empty_db_def)

subsection \<open>Listing\<close>

lemma for_each_length: "for_each f xs = Inr ys \<Longrightarrow> length ys = length xs"
  by (induction xs arbitrary: ys) (auto split: sum.splits)

lemma for_each_all_ok:
  "(\<And>x. x \<in> set xs \<Longrightarrow> f x = Inr (g x)) \<Longrightarrow> for_each f xs = Inr (map g xs)"
  by (induction xs) auto

lemma for_each_fails:
  "i < length xs \<Longrightarrow> f (xs ! i) = Inl e \<Longrightarrow> \<exists>e'. for_each f xs = Inl e'"
proof (induction xs arbitrary: i)
  case Nil
  then show ?case by simp
next
  case (Cons x xs)
  show ?case
  proof (cases i)
    case 0
    with Cons.prems show ?thesis by simp
  next
    case (Suc k)
    with Cons.prems have "\<exists>e'. for_each f xs = Inl e'"
      using Cons.IH [of k] by simp
    then show ?thesis by (auto split: sum.splits)
  qed
qed

lemma for_each_first_error:
  "for_each f xs = Inl e \<Longrightarrow> i < length xs \<Longrightarrow> f (xs ! i) = Inl e0 \<Longrightarrow>
   \<exists>j\<le>i. f (xs ! j) = Inl e"
proof (induction xs arbitrary: i)
  case Nil
  then show ?case by simp
next
  case (Cons x xs)
  show ?case
  proof (cases "f x")
    case (Inl e')
    with Cons.prems(1) have "e' = e" by simp
    with Inl show ?thesis by (intro exI [of _ 0]) simp
  next
    case (Inr y)
    with Cons.prems(1) have rest: "for_each f xs = Inl e"
      by (simp split: sum.splits)
    from Inr Cons.prems(3) obtain k where k: "i = Suc k"
      by (cases i) auto
    with Cons.prems have "\<exists>j\<le>k. f (xs ! j) = Inl e"
      using Cons.IH [OF rest, of k] by simp
    then obtain j where "j \<le> k" "f (xs ! j) = Inl e" by blast
    with k show ?thesis by (intro exI [of _ "Suc j"]) simp
  qed
qed

lemma for_each_error_source: "for_each f xs = Inl e \<Longrightarrow> \<exists>x\<in>set xs. f x = Inl e"
  by (induction xs) (auto split: sum.splits)

lemma for_each_replicate:
  "f d = Inr d' \<Longrightarrow> for_each f (replicate n d) = Inr (replicate n d')"
  by (induction n) auto

lemma length_sort_by_field [simp]: "length (sort_by_field kd ds) = length ds"
  by (cases kd) simp

lemma set_sort_by_field [simp]: "set (sort_by_field kd ds) = set ds"
  by (cases kd) simp

lemma mset_sort_by_field [simp]: "mset (sort_by_field kd ds) = mset ds"
  by (cases kd) simp

lemma length_mongo_sort [simp]: "length (mongo_sort spec ds) = length ds"
  unfolding mongo_sort_def by (induction spec) simp_all

lemma set_mongo_sort [simp]: "set (mongo_sort spec ds) = set ds"
  unfolding mongo_sort_def by (induction spec) simp_all

lemma mset_mongo_sort [simp]: "mset (mongo_sort spec ds) = mset ds"
  unfolding mongo_sort_def by (induction spec) simp_all

lemma mongo_sort_Nil [simp]: "mongo_sort spec [] = []"
proof -
  have "length (mongo_sort spec []) = 0" by simp
  then show ?thesis by (simp only: length_0_conv)
qed

lemma map_of_project_no_id:
  "k \<noteq> ''_id'' \<Longrightarrow> map_of (project_no_id d) k = map_of d k"
  by (simp add: project_no_id_def delete_conv')

text \<open>
  C5. On an empty review collection the statistics are average 0.0 and count 0 (a result,
  not a failure), and the listing is the empty list, under every sort order.
\<close>

theorem empty_collection_results:
  assumes "reviews db = []"
  shows "get_review_stats db = Inr \<lparr>average_rating = 0, total_reviews = 0\<rparr>
     \<and> get_reviews db sort_order = Inr []"
  using assms
  by (simp add: get_review_stats_def aggregate_group_def get_reviews_def)

theorem empty_collection_results_witness:
  "reviews empty_db = []
   \<and> get_review_stats empty_db = Inr \<lparr>average_rating = 0, total_reviews = 0\<rparr>
   \<and> get_reviews empty_db RATING_DESC = Inr []"
  using empty_collection_results [of empty_db RATING_DESC]
  by (simp add: empty_db_def)

text \<open>
  C6. A \<^verbatim>\<open>sort\<close> query value outside \<^verbatim>\<open>date_desc\<close>, \<^verbatim>\<open>date_asc\<close>, \<^verbatim>\<open>rating_desc\<close>,
  \<^verbatim>\<open>rating_asc\<close> fails with a \<^verbatim>\<open>ValidationError\<close> when the request is parsed, whatever the
  store holds (no listing, in particular no default-sorted one, is produced); without the
  parameter the listing is the newest-first one.
\<close>

theorem unknown_sort_rejected:
  "(v \<notin> {py_str ''date_desc'', py_str ''date_asc'', py_str ''rating_desc'', py_str ''rating_asc''}
      \<longrightarrow> SortOrder_parse (Some v) = Inl ValidationError
        \<and> get_reviews_route db (Some v) = Inl ValidationError)
   \<and> get_reviews_route db None = get_reviews db DATE_DESC
   \<and> sort_options DATE_DESC = [(''created_at'', -1)]"
  by (simp add: get_reviews_route_def SortOrder_parse_def SortOrder_value_def sort_options_def)

theorem unknown_sort_rejected_witness:
  "py_str ''newest'' \<notin>
     {py_str ''date_desc'', py_str ''date_asc'', py_str ''rating_desc'', py_str ''rating_asc''}
   \<and> get_reviews_route empty_db (Some (py_str ''newest'')) = Inl ValidationError
   \<and> get_reviews_route empty_db None = get_reviews empty_db DATE_DESC"
  using unknown_sort_rejected [of "py_str ''newest''" empty_db]
  by (simp add: py_str_def)

subsection \<open>Timestamps\<close>

lemma length_pad [simp]: "length (pad k n) = k"
  by (induction k arbitrary: n) auto

lemma digits_val_append:
  "digits_val acc (xs @ ys) =
     (case digits_val acc xs of None \<Rightarrow> None | Some v \<Rightarrow> digits_val v ys)"
  by (induction xs arbitrary: acc) auto

lemma digits_val_pad: "digits_val acc (pad k n) = Some (acc * 10 ^ k + n mod 10 ^ k)"
proof (induction k arbitrary: n)
  case 0
  show ?case by simp
next
  case (Suc k)
  have "n mod (10 * 10 ^ k) = 10 * (n div 10 mod 10 ^ k) + n mod 10"
    by (rule mod_mult2_eq)
  then show ?case
    by (simp add: digits_val_append Suc.IH algebra_simps)
qed

lemma field_pad:
  assumes "length a = i" and "n < 10 ^ k"
  shows "field (a @ pad k n @ b) i k = Some n"
  using assms by (simp add: field_def digits_val_pad)

lemma length_isoformat:
  "length (isoformat d) = (if microsecond d = 0 then 25 else 32)"
  by (simp add: isoformat_def fraction_def utc_suffix_def)

lemma fromisoformat_isoformat:
  assumes "valid_datetime d"
  shows "fromisoformat (isoformat d) = Inr d"
proof -
  let ?s = "isoformat d"
  have b: "year d < 10 ^ 4" "month d < 10 ^ 2" "day d < 10 ^ 2" "hour d < 10 ^ 2"
    "minute d < 10 ^ 2" "second d < 10 ^ 2" "microsecond d < 10 ^ 6"
    using assms by (auto simp: valid_datetime_def days_in_month_def split: if_splits)
  have y: "field ?s 0 4 = Some (year d)"
    using field_pad [of "[]" 0 "year d" 4] b(1) by (simp add: isoformat_def)
  have mo: "field ?s 5 2 = Some (month d)"
    using field_pad [of "pad 4 (year d) @ [45]" 5 "month d" 2] b(2) by (simp add: isoformat_def)
  have da: "field ?s 8 2 = Some (day d)"
    using field_pad [of "pad 4 (year d) @ [45] @ pad 2 (month d) @ [45]" 8 "day d" 2] b(3)
    by (simp add: isoformat_def)
  have h: "field ?s 11 2 = Some (hour d)"
    using field_pad [of "pad 4 (year d) @ [45] @ pad 2 (month d) @ [45] @ pad 2 (day d) @ [84]"
        11 "hour d" 2] b(4)
    by (simp add: isoformat_def)
  have mi: "field ?s 14 2 = Some (minute d)"
    using field_pad [of "pad 4 (year d) @ [45] @ pad 2 (month d) @ [45] @ pad 2 (day d) @ [84]
        @ pad 2 (hour d) @ [58]" 14 "minute d" 2] b(5)
    by (simp add: isoformat_def)
  have se: "field ?s 17 2 = Some (second d)"
    using field_pad [of "pad 4 (year d) @ [45] @ pad 2 (month d) @ [45] @ pad 2 (day d) @ [84]
        @ pad 2 (hour d) @ [58] @ pad 2 (minute d) @ [58]" 17 "second d" 2] b(6)
    by (simp add: isoformat_def)
  have us: "microsecond d \<noteq> 0 \<Longrightarrow> field ?s 20 6 = Some (microsecond d)"
    using field_pad [of "pad 4 (year d) @ [45] @ pad 2 (month d) @ [45] @ pad 2 (day d) @ [84]
        @ pad 2 (hour d) @ [58] @ pad 2 (minute d) @ [58] @ pad 2 (second d) @ [46]" 20
        "microsecond d" 6 utc_suffix] b(7)
    by (simp add: isoformat_def fraction_def)
  have seps: "?s ! 4 = 45" "?s ! 7 = 45" "?s ! 10 = 84" "?s ! 13 = 58" "?s ! 16 = 58"
    by (simp_all add: isoformat_def nth_append)
  have dot: "microsecond d \<noteq> 0 \<Longrightarrow> ?s ! 19 = 46"
    by (simp add: isoformat_def nth_append fraction_def)
  have suf: "drop (length ?s - 6) ?s = utc_suffix"
    by (simp add: isoformat_def fraction_def utc_suffix_def)
  have mk: "mk_datetime (Some (year d)) (Some (month d)) (Some (day d)) (Some (hour d))
      (Some (minute d)) (Some (second d)) (Some (microsecond d)) = Inr d"
    using assms by (cases d) (simp add: mk_datetime_def)
  have len: "length ?s = (if microsecond d = 0 then 25 else 32)"
    by (rule length_isoformat)
  have last: "(if length ?s = 32 then field ?s 20 6 else Some 0) = Some (microsecond d)"
    using us by (simp add: len)
  have guard: "(length ?s = 25 \<or> length ?s = 32) \<and>
         ?s ! 4 = 45 \<and> ?s ! 7 = 45 \<and> ?s ! 10 = 84 \<and> ?s ! 13 = 58 \<and> ?s ! 16 = 58 \<and>
         drop (length ?s - 6) ?s = utc_suffix \<and>
         (length ?s = 32 \<longrightarrow> ?s ! 19 = 46)"
    using seps suf dot by (simp add: len)
  show ?thesis
    unfolding fromisoformat_def
    using guard by (simp add: y mo da h mi se last mk)
qed

lemma mk_datetime_error: "mk_datetime y mo d h mi s us = Inl e \<Longrightarrow> e = ValueError"
  unfolding mk_datetime_def
  by (simp add: Let_def split: option.splits if_splits prod.splits)

lemma fromisoformat_error: "fromisoformat s = Inl e \<Longrightarrow> e = ValueError"
  unfolding fromisoformat_def
  by (cases "length s = 32") (auto split: if_splits dest: mk_datetime_error)

lemma status_parse_timestamp_error:
  assumes "status_parse_timestamp d = Inl e"
  shows "e = KeyError \<or> e = ValueError"
proof (cases "map_of d ''timestamp''")
  case None
  with assms show ?thesis by (simp add: status_parse_timestamp_def)
next
  case (Some v)
  show ?thesis
  proof (cases v)
    case (PStr s)
    with Some assms have "fromisoformat s = Inl e"
      by (simp add: status_parse_timestamp_def split: sum.splits)
    then show ?thesis by (simp add: fromisoformat_error)
  qed (use Some assms in \<open>simp_all add: status_parse_timestamp_def\<close>)
qed

lemma review_parse_created_at_error:
  assumes "review_parse_created_at d = Inl e"
  shows "e = ValueError"
proof (cases "map_of d ''created_at''")
  case None
  with assms show ?thesis by (simp add: review_parse_created_at_def)
next
  case (Some v)
  show ?thesis
  proof (cases v)
    case (PStr s)
    with Some assms have "fromisoformat s = Inl e"
      by (simp add: review_parse_created_at_def split: sum.splits)
    then show ?thesis by (simp add: fromisoformat_error)
  qed (use Some assms in \<open>simp_all add: review_parse_created_at_def\<close>)
qed

lemma valid_sample_time: "n < 60 \<Longrightarrow> valid_datetime (sample_time n)"
  by (simp add: valid_datetime_def sample_time_def days_in_month_def)

lemma sample_status_parses:
  "status_parse_timestamp (project_no_id sample_status_doc) = Inr sample_status_listed"
  by (simp add: status_parse_timestamp_def project_no_id_def sample_status_doc_def
      sample_status_listed_def fromisoformat_isoformat valid_sample_time)


lemma sort_by_field_replicate [simp]: "sort_by_field kd (replicate n d) = replicate n d"
  by (cases kd) (simp add: sort_key_id_if_sorted)

lemma mongo_sort_replicate [simp]: "mongo_sort spec (replicate n d) = replicate n d"
  unfolding mongo_sort_def by (induction spec) simp_all

lemma foreign_review_parses:
  "review_parse_created_at (project_no_id foreign_review_doc) = Inr (project_no_id foreign_review_doc)"
  by (simp add: review_parse_created_at_def project_no_id_def foreign_review_doc_def)

text \<open>
  C7. Whatever the store holds, a listing of reviews or of status checks that returns,
  returns the first 1000 documents at most: its length is the smaller of 1000 and the
  size of the collection.
\<close>

theorem listing_capped:
  "(get_reviews db sort_order = Inr rs \<longrightarrow>
      length rs = min 1000 (length (reviews db)) \<and> length rs \<le> 1000)
   \<and> (get_status_checks db = Inr cs \<longrightarrow>
      length cs = min 1000 (length (status_checks db)) \<and> length cs \<le> 1000)"
  by (auto simp: get_reviews_def get_status_checks_def dest!: for_each_length)

theorem listing_capped_witness:
  "get_reviews \<lparr>reviews = replicate 1001 foreign_review_doc,
                 status_checks = replicate 1001 sample_status_doc\<rparr> RATING_ASC
     = Inr (replicate 1000 (project_no_id foreign_review_doc))
   \<and> length (replicate 1000 (project_no_id foreign_review_doc)) \<le> 1000
   \<and> get_status_checks \<lparr>reviews = replicate 1001 foreign_review_doc,
                          status_checks = replicate 1001 sample_status_doc\<rparr>
     = Inr (replicate 1000 sample_status_listed)
   \<and> length (replicate 1000 sample_status_listed) \<le> 1000"
  using listing_capped [of "\<lparr>reviews = replicate 1001 foreign_review_doc,
      status_checks = replicate 1001 sample_status_doc\<rparr>" RATING_ASC
      "replicate 1000 (project_no_id foreign_review_doc)" "replicate 1000 sample_status_listed"]
  by (simp add: get_reviews_def get_status_checks_def for_each_replicate
      foreign_review_parses sample_status_parses)

text \<open>
  C8. As stated (a status check is created exactly when the client name is a non-empty
  string) the claim fails: the empty client name is accepted and stored.
\<close>

theorem empty_client_name_accepted:
  "client_name \<lparr>client_name = []\<rparr> = []
   \<and> post_status empty_db [105, 100] (sample_time 0) 0 \<lparr>client_name = []\<rparr> =
       (Inr \<lparr>status_id = [105, 100], status_client_name = [], status_timestamp = sample_time 0\<rparr>,
        \<lparr>reviews = [],
         status_checks = [[(''_id'', PObjectId 0), (''id'', PStr [105, 100]),
                           (''client_name'', PStr []),
                           (''timestamp'', PStr (isoformat (sample_time 0)))]]\<rparr>)"
  by (simp add: post_status_any empty_db_def)

text \<open>
  C8, amended. The status-creation route enforces no bound at all on the client name: for
  every string, the empty one included, it creates the status check, returns it with that
  client name and stores it.
\<close>

theorem status_created_for_every_name:
  "post_status db uuid now oid \<lparr>client_name = c\<rparr> =
     (Inr \<lparr>status_id = uuid, status_client_name = c, status_timestamp = now\<rparr>,
      db\<lparr>status_checks := status_checks db @
           [[(''_id'', PObjectId oid), (''id'', PStr uuid), (''client_name'', PStr c),
             (''timestamp'', PStr (isoformat now))]]\<rparr>)"
  by (simp add: post_status_any)

text \<open>
  C10. As stated (status listing fails on any stored document without a timestamp) the
  claim fails: the listing reads the first 1000 documents only, and a document without
  timestamp stored after them does not make it fail.
\<close>

theorem keyless_document_beyond_cap:
  "map_of ((replicate 1000 sample_status_doc @ [foreign_status_doc]) ! 1000) ''timestamp'' = None
   \<and> get_status_checks
        \<lparr>reviews = [], status_checks = replicate 1000 sample_status_doc @ [foreign_status_doc]\<rparr>
      = Inr (replicate 1000 sample_status_listed)"
  by (simp add: nth_append foreign_status_doc_def get_status_checks_def for_each_replicate
      sample_status_parses)

text \<open>
  C10, amended. Status listing indexes \<^verbatim>\<open>check['timestamp']\<close> directly: when one of the
  documents it reads (the first 1000 of the collection) has no timestamp, the listing
  fails, with \<^verbatim>\<open>KeyError\<close> unless an earlier document made it fail with the
  \<^verbatim>\<open>ValueError\<close> of an unreadable timestamp text first. Review listing uses
  \<^verbatim>\<open>review.get('created_at')\<close>: a document without creation time is passed through
  unchanged, the listing never fails with \<^verbatim>\<open>KeyError\<close>, and a collection of documents
  without creation time is listed.
\<close>

theorem status_listing_needs_timestamp:
  "(i < length (status_checks db) \<and> i < 1000 \<and>
      map_of (status_checks db ! i) ''timestamp'' = None \<longrightarrow>
      (get_status_checks db = Inl KeyError \<or> get_status_checks db = Inl ValueError) \<and>
      ((\<forall>j<i. status_parse_timestamp (project_no_id (status_checks db ! j)) \<noteq> Inl ValueError)
         \<longrightarrow> get_status_checks db = Inl KeyError))
   \<and> (map_of review ''created_at'' = None \<longrightarrow> review_parse_created_at review = Inr review)
   \<and> get_reviews db sort_order \<noteq> Inl KeyError
   \<and> ((\<forall>d\<in>set (reviews db). map_of d ''created_at'' = None) \<longrightarrow>
        get_reviews db sort_order =
          Inr (take 1000 (map project_no_id (mongo_sort (sort_options sort_order) (reviews db)))))"
proof (intro conjI impI)
  let ?xs = "take 1000 (map project_no_id (status_checks db))"
  assume a: "i < length (status_checks db) \<and> i < 1000 \<and>
    map_of (status_checks db ! i) ''timestamp'' = None"
  then have i: "i < length ?xs" by simp
  have xi: "?xs ! i = project_no_id (status_checks db ! i)"
    using a by simp
  have fi: "status_parse_timestamp (?xs ! i) = Inl KeyError"
    using a by (simp add: xi status_parse_timestamp_def map_of_project_no_id)
  from for_each_fails [of i ?xs status_parse_timestamp KeyError] i fi
  obtain e where e: "get_status_checks db = Inl e"
    by (auto simp: get_status_checks_def)
  then have fe: "for_each status_parse_timestamp ?xs = Inl e"
    by (simp add: get_status_checks_def)
  from for_each_first_error [of status_parse_timestamp ?xs e i KeyError] fe i fi
  obtain j where j: "j \<le> i" "status_parse_timestamp (?xs ! j) = Inl e"
    by blast
  from j(2) have kv: "e = KeyError \<or> e = ValueError"
    by (rule status_parse_timestamp_error)
  with e show "get_status_checks db = Inl KeyError \<or> get_status_checks db = Inl ValueError"
    by auto
  assume nv: "\<forall>j<i. status_parse_timestamp (project_no_id (status_checks db ! j)) \<noteq> Inl ValueError"
  have xj: "?xs ! j = project_no_id (status_checks db ! j)"
    using a j(1) by simp
  show "get_status_checks db = Inl KeyError"
  proof (cases "j = i")
    case True
    with j(2) fi e show ?thesis by simp
  next
    case False
    with j(1) have "j < i" by simp
    with nv j(2) xj have "e \<noteq> ValueError" by auto
    with kv e show ?thesis by simp
  qed
next
  assume "map_of review ''created_at'' = None"
  then show "review_parse_created_at review = Inr review"
    by (simp add: review_parse_created_at_def)
next
  show "get_reviews db sort_order \<noteq> Inl KeyError"
  proof
    assume "get_reviews db sort_order = Inl KeyError"
    then obtain x where "review_parse_created_at x = Inl KeyError"
      unfolding get_reviews_def by (blast dest: for_each_error_source)
    then show False by (auto dest: review_parse_created_at_error)
  qed
next
  assume a: "\<forall>d\<in>set (reviews db). map_of d ''created_at'' = None"
  let ?ys = "take 1000 (map project_no_id (mongo_sort (sort_options sort_order) (reviews db)))"
  have "for_each review_parse_created_at ?ys = Inr (map (\<lambda>d. d) ?ys)"
  proof (rule for_each_all_ok)
    fix x assume "x \<in> set ?ys"
    then have "x \<in> set (map project_no_id (mongo_sort (sort_options sort_order) (reviews db)))"
      by (rule in_set_takeD)
    then obtain d where "d \<in> set (reviews db)" "x = project_no_id d" by auto
    with a show "review_parse_created_at x = Inr x"
      by (simp add: review_parse_created_at_def map_of_project_no_id)
  qed
  then show "get_reviews db sort_order = Inr ?ys"
    by (simp add: get_reviews_def)
qed

theorem status_listing_needs_timestamp_witness:
  "map_of ([sample_status_doc, foreign_status_doc] ! 1) ''timestamp'' = None
   \<and> status_parse_timestamp (project_no_id ([sample_status_doc, foreign_status_doc] ! 0))
       \<noteq> Inl ValueError
   \<and> get_status_checks
       \<lparr>reviews = [foreign_review_doc], status_checks = [sample_status_doc, foreign_status_doc]\<rparr>
       = Inl KeyError
   \<and> map_of (project_no_id foreign_review_doc) ''created_at'' = None
   \<and> review_parse_created_at (project_no_id foreign_review_doc)
       = Inr (project_no_id foreign_review_doc)
   \<and> get_reviews
       \<lparr>reviews = [foreign_review_doc], status_checks = [sample_status_doc, foreign_status_doc]\<rparr>
       DATE_DESC = Inr [project_no_id foreign_review_doc]"
proof -
  let ?db = "\<lparr>reviews = [foreign_review_doc],
              status_checks = [sample_status_doc, foreign_status_doc]\<rparr>"
  note t = status_listing_needs_timestamp [of 1 ?db "project_no_id foreign_review_doc" DATE_DESC]
  have h1: "1 < length (status_checks ?db) \<and> (1::nat) < 1000 \<and>
      map_of (status_checks ?db ! 1) ''timestamp'' = None"
    by (simp add: foreign_status_doc_def)
  have h2: "\<forall>j<1. status_parse_timestamp (project_no_id (status_checks ?db ! j)) \<noteq> Inl ValueError"
    by (simp add: sample_status_parses)
  have h3: "map_of (project_no_id foreign_review_doc) ''created_at'' = None"
    by (simp add: project_no_id_def foreign_review_doc_def)
  have h4: "\<forall>d\<in>set (reviews ?db). map_of d ''created_at'' = None"
    by (simp add: foreign_review_doc_def)
  have s: "mongo_sort (sort_options DATE_DESC) [foreign_review_doc] = [foreign_review_doc]"
    by (simp add: mongo_sort_def sort_options_def)
  from t h1 h2 have "get_status_checks ?db = Inl KeyError" by blast
  moreover from t h3 have "review_parse_created_at (project_no_id foreign_review_doc)
      = Inr (project_no_id foreign_review_doc)" by blast
  moreover from t h4 have "get_reviews ?db DATE_DESC = Inr [project_no_id foreign_review_doc]"
    by (simp add: s)
  ultimately show ?thesis
    using h1 h2 h3 by simp
qed

subsection \<open>Creation followed by listing\<close>

lemma insort_key_map:
  "insort_key f (g x) (map g xs) = map g (insort_key (\<lambda>a. f (g a)) x xs)"
  by (induction xs) simp_all

lemma sort_key_map: "sort_key f (map g xs) = map g (sort_key (\<lambda>a. f (g a)) xs)"
  by (induction xs) (simp_all add: insort_key_map)

lemma sort_by_field_project:
  assumes "fst kd \<noteq> ''_id''"
  shows "sort_by_field kd (map project_no_id ds) = map project_no_id (sort_by_field kd ds)"
proof -
  obtain k dir where kd: "kd = (k, dir)" by (cases kd)
  with assms have k: "k \<noteq> ''_id''" by simp
  have key: "(\<lambda>a. bson_key (map_of (project_no_id a) k)) = (\<lambda>a. bson_key (map_of a k))"
    using k by (simp add: map_of_project_no_id)
  show ?thesis
    by (simp add: kd rev_map sort_key_map key)
qed

lemma mongo_sort_project:
  assumes "\<forall>kd\<in>set spec. fst kd \<noteq> ''_id''"
  shows "mongo_sort spec (map project_no_id ds) = map project_no_id (mongo_sort spec ds)"
  using assms unfolding mongo_sort_def
  by (induction spec) (simp_all add: sort_by_field_project)

lemma sort_options_no_id: "\<forall>kd\<in>set (sort_options s). fst kd \<noteq> ''_id''"
  by (cases s) (simp_all add: sort_options_def)

lemma created_reviews_Cons:
  "created_reviews (r # rs) = created_reviews [r] @ created_reviews rs"
proof (cases r)
  case (Review_response x)
  then show ?thesis by (cases x) simp_all
next
  case (Status_response x)
  then show ?thesis by simp
qed

lemma created_status_checks_Cons:
  "created_status_checks (r # rs) = created_status_checks [r] @ created_status_checks rs"
proof (cases r)
  case (Review_response x)
  then show ?thesis by simp
next
  case (Status_response x)
  then show ?thesis by (cases x) simp_all
qed

lemma serve_documents:
  "map project_no_id (reviews (snd (serve db q))) =
     map project_no_id (reviews db) @ map review_document (created_reviews [fst (serve db q)])"
  "map project_no_id (status_checks (snd (serve db q))) =
     map project_no_id (status_checks db) @
     map status_document (created_status_checks [fst (serve db q)])"
  "\<forall>r\<in>set (created_reviews [fst (serve db q)]). review_created_at r = request_time q"
  "\<forall>s\<in>set (created_status_checks [fst (serve db q)]). status_timestamp s = request_time q"
proof -
  show "map project_no_id (reviews (snd (serve db q))) =
     map project_no_id (reviews db) @ map review_document (created_reviews [fst (serve db q)])"
  proof (cases q)
    case (POST_reviews uuid now oid body)
    then show ?thesis
      by (cases "valid_payload body")
        (simp_all add: post_reviews_valid post_reviews_invalid project_no_id_def
          review_document_def Review_model_dump_def)
  next
    case (POST_status uuid now oid body)
    then show ?thesis by (simp add: post_status_any)
  qed
  show "map project_no_id (status_checks (snd (serve db q))) =
     map project_no_id (status_checks db) @
     map status_document (created_status_checks [fst (serve db q)])"
  proof (cases q)
    case (POST_reviews uuid now oid body)
    then show ?thesis
      by (cases "valid_payload body") (simp_all add: post_reviews_valid post_reviews_invalid)
  next
    case (POST_status uuid now oid body)
    then show ?thesis
      by (simp add: post_status_any project_no_id_def status_document_def
          StatusCheck_model_dump_def)
  qed
  show "\<forall>r\<in>set (created_reviews [fst (serve db q)]). review_created_at r = request_time q"
  proof (cases q)
    case (POST_reviews uuid now oid body)
    then show ?thesis
      by (cases "valid_payload body") (simp_all add: post_reviews_valid post_reviews_invalid)
  next
    case (POST_status uuid now oid body)
    then show ?thesis by (simp add: post_status_any)
  qed
  show "\<forall>s\<in>set (created_status_checks [fst (serve db q)]). status_timestamp s = request_time q"
  proof (cases q)
    case (POST_reviews uuid now oid body)
    then show ?thesis
      by (cases "valid_payload body") (simp_all add: post_reviews_valid post_reviews_invalid)
  next
    case (POST_status uuid now oid body)
    then show ?thesis by (simp add: post_status_any)
  qed
qed

lemma serve_all_reviews:
  "map project_no_id (reviews (snd (serve_all db qs))) =
     map project_no_id (reviews db) @ map review_document (created_reviews (fst (serve_all db qs)))"
proof (induction qs arbitrary: db)
  case Nil
  show ?case by simp
next
  case (Cons q qs)
  let ?db' = "snd (serve db q)"
  have "map project_no_id (reviews (snd (serve_all db (q # qs)))) =
      map project_no_id (reviews (snd (serve_all ?db' qs)))"
    by (simp only: snd_serve_all_Cons)
  also have "\<dots> = map project_no_id (reviews ?db') @
      map review_document (created_reviews (fst (serve_all ?db' qs)))"
    by (rule Cons.IH)
  also have "\<dots> = map project_no_id (reviews db) @
      map review_document (created_reviews [fst (serve db q)] @
        created_reviews (fst (serve_all ?db' qs)))"
    by (simp only: serve_documents(1) map_append append_assoc)
  also have "created_reviews [fst (serve db q)] @ created_reviews (fst (serve_all ?db' qs)) =
      created_reviews (fst (serve_all db (q # qs)))"
    by (simp only: fst_serve_all_Cons created_reviews_Cons [symmetric])
  finally show ?case .
qed

lemma serve_all_status_checks:
  "map project_no_id (status_checks (snd (serve_all db qs))) =
     map project_no_id (status_checks db) @
     map status_document (created_status_checks (fst (serve_all db qs)))"
proof (induction qs arbitrary: db)
  case Nil
  show ?case by simp
next
  case (Cons q qs)
  let ?db' = "snd (serve db q)"
  have "map project_no_id (status_checks (snd (serve_all db (q # qs)))) =
      map project_no_id (status_checks (snd (serve_all ?db' qs)))"
    by (simp only: snd_serve_all_Cons)
  also have "\<dots> = map project_no_id (status_checks ?db') @
      map status_document (created_status_checks (fst (serve_all ?db' qs)))"
    by (rule Cons.IH)
  also have "\<dots> = map project_no_id (status_checks db) @
      map status_document (created_status_checks [fst (serve db q)] @
        created_status_checks (fst (serve_all ?db' qs)))"
    by (simp only: serve_documents(2) map_append append_assoc)
  also have "created_status_checks [fst (serve db q)] @
        created_status_checks (fst (serve_all ?db' qs)) =
      created_status_checks (fst (serve_all db (q # qs)))"
    by (simp only: fst_serve_all_Cons created_status_checks_Cons [symmetric])
  finally show ?case .
qed

lemma serve_all_review_times:
  "r \<in> set (created_reviews (fst (serve_all db qs))) \<Longrightarrow>
   review_created_at r \<in> request_time ` set qs"
proof (induction qs arbitrary: db)
  case Nil
  then show ?case by simp
next
  case (Cons q qs)
  have "created_reviews (fst (serve_all db (q # qs))) =
      created_reviews [fst (serve db q)] @ created_reviews (fst (serve_all (snd (serve db q)) qs))"
    unfolding fst_serve_all_Cons by (rule created_reviews_Cons)
  with Cons.prems have "r \<in> set (created_reviews [fst (serve db q)]) \<or>
      r \<in> set (created_reviews (fst (serve_all (snd (serve db q)) qs)))"
    by (simp only: set_append Un_iff)
  then show ?case
  proof
    assume "r \<in> set (created_reviews [fst (serve db q)])"
    with serve_documents(3) [of db q] show ?thesis by simp
  next
    assume "r \<in> set (created_reviews (fst (serve_all (snd (serve db q)) qs)))"
    then have "review_created_at r \<in> request_time ` set qs" by (rule Cons.IH)
    then show ?thesis by auto
  qed
qed

lemma serve_all_status_times:
  "s \<in> set (created_status_checks (fst (serve_all db qs))) \<Longrightarrow>
   status_timestamp s \<in> request_time ` set qs"
proof (induction qs arbitrary: db)
  case Nil
  then show ?case by simp
next
  case (Cons q qs)
  have "created_status_checks (fst (serve_all db (q # qs))) =
      created_status_checks [fst (serve db q)] @
      created_status_checks (fst (serve_all (snd (serve db q)) qs))"
    unfolding fst_serve_all_Cons by (rule created_status_checks_Cons)
  with Cons.prems have "s \<in> set (created_status_checks [fst (serve db q)]) \<or>
      s \<in> set (created_status_checks (fst (serve_all (snd (serve db q)) qs)))"
    by (simp only: set_append Un_iff)
  then show ?case
  proof
    assume "s \<in> set (created_status_checks [fst (serve db q)])"
    with serve_documents(4) [of db q] show ?thesis by simp
  next
    assume "s \<in> set (created_status_checks (fst (serve_all (snd (serve db q)) qs)))"
    then have "status_timestamp s \<in> request_time ` set qs" by (rule Cons.IH)
    then show ?thesis by auto
  qed
qed

lemma review_document_parses:
  "valid_datetime (review_created_at r) \<Longrightarrow>
   review_parse_created_at (review_document r) = Inr (Review_model_dump r)"
  by (simp add: review_parse_created_at_def review_document_def Review_model_dump_def
      fromisoformat_isoformat)

lemma status_document_parses:
  "valid_datetime (status_timestamp s) \<Longrightarrow>
   status_parse_timestamp (status_document s) = Inr (StatusCheck_model_dump s)"
  by (simp add: status_parse_timestamp_def status_document_def StatusCheck_model_dump_def
      fromisoformat_isoformat)

lemma sort_by_field_documents:
  "sort_by_field kd (map review_document rs) = map review_document (sort_reviews_by kd rs)"
  by (cases kd) (simp add: rev_map sort_key_map)

lemma mongo_sort_documents:
  "mongo_sort spec (map review_document rs) = map review_document (sort_reviews spec rs)"
  unfolding mongo_sort_def sort_reviews_def
  by (induction spec) (simp_all add: sort_by_field_documents)

lemma mset_sort_reviews_by [simp]: "mset (sort_reviews_by kd rs) = mset rs"
  by (cases kd) simp

lemma mset_sort_reviews [simp]: "mset (sort_reviews spec rs) = mset rs"
  unfolding sort_reviews_def by (induction spec) simp_all

lemma set_sort_reviews [simp]: "set (sort_reviews spec rs) = set rs"
  using mset_sort_reviews [of spec rs] by (metis set_mset_mset)

lemma length_sort_reviews [simp]: "length (sort_reviews spec rs) = length rs"
  using mset_sort_reviews [of spec rs] by (metis size_mset)

lemma get_reviews_served:
  assumes "\<forall>q\<in>set qs. valid_datetime (request_time q)"
  shows "get_reviews (snd (serve_all empty_db qs)) sort_order =
     Inr (map Review_model_dump
           (take 1000 (sort_reviews (sort_options sort_order)
              (created_reviews (fst (serve_all empty_db qs))))))"
proof -
  let ?created = "created_reviews (fst (serve_all empty_db qs))"
  let ?rs = "take 1000 (sort_reviews (sort_options sort_order) ?created)"
  have docs: "map project_no_id (reviews (snd (serve_all empty_db qs))) =
      map review_document ?created"
    using serve_all_reviews [of empty_db qs] by (simp add: empty_db_def)
  have "take 1000 (map project_no_id
          (mongo_sort (sort_options sort_order) (reviews (snd (serve_all empty_db qs))))) =
      map review_document ?rs"
    by (simp only: mongo_sort_project [OF sort_options_no_id, symmetric] docs
        mongo_sort_documents take_map)
  moreover have "for_each review_parse_created_at (map review_document ?rs) =
      Inr (map Review_model_dump ?rs)"
  proof -
    have "for_each review_parse_created_at (map review_document rs) =
        Inr (map Review_model_dump rs)"
      if "\<forall>r\<in>set rs. valid_datetime (review_created_at r)" for rs
      using that by (induction rs) (simp_all add: review_document_parses)
    moreover have "\<forall>r\<in>set ?rs. valid_datetime (review_created_at r)"
    proof
      fix r assume "r \<in> set ?rs"
      then have "r \<in> set ?created"
        by (auto dest: in_set_takeD)
      then have "review_created_at r \<in> request_time ` set qs"
        by (rule serve_all_review_times)
      with assms show "valid_datetime (review_created_at r)" by auto
    qed
    ultimately show ?thesis by blast
  qed
  ultimately show ?thesis
    by (simp only: get_reviews_def)
qed

lemma get_status_checks_served:
  assumes "\<forall>q\<in>set qs. valid_datetime (request_time q)"
  shows "get_status_checks (snd (serve_all empty_db qs)) =
     Inr (map StatusCheck_model_dump
           (take 1000 (created_status_checks (fst (serve_all empty_db qs)))))"
proof -
  let ?created = "created_status_checks (fst (serve_all empty_db qs))"
  have docs: "map project_no_id (status_checks (snd (serve_all empty_db qs))) =
      map status_document ?created"
    using serve_all_status_checks [of empty_db qs] by (simp add: empty_db_def)
  have "for_each status_parse_timestamp (map status_document ss) =
        Inr (map StatusCheck_model_dump ss)"
      if "\<forall>s\<in>set ss. valid_datetime (status_timestamp s)" for ss
    using that by (induction ss) (simp_all add: status_document_parses)
  moreover have "\<forall>s\<in>set (take 1000 ?created). valid_datetime (status_timestamp s)"
  proof
    fix s assume "s \<in> set (take 1000 ?created)"
    then have "s \<in> set ?created" by (rule in_set_takeD)
    then have "status_timestamp s \<in> request_time ` set qs"
      by (rule serve_all_status_times)
    with assms show "valid_datetime (status_timestamp s)" by auto
  qed
  ultimately have "for_each status_parse_timestamp (map status_document (take 1000 ?created)) =
      Inr (map StatusCheck_model_dump (take 1000 ?created))"
    by blast
  then show ?thesis
    by (simp only: get_status_checks_def docs take_map)
qed

text \<open>
  C9. Creation writes the time as ISO text and listing reads it back: after any sequence of
  creation requests served on the empty store, every record in a review listing is, field
  for field, a record that a creation returned, its \<^verbatim>\<open>created_at\<close> being the creation
  time returned then (all of them are listed while there are at most 1000); the status
  listing is the list of the status checks returned at creation, with their timestamps.
\<close>

theorem listing_returns_creation_time:
  assumes "\<forall>q\<in>set qs. valid_datetime (request_time q)"
  shows "(\<exists>rs. get_reviews (snd (serve_all empty_db qs)) sort_order
               = Inr (map Review_model_dump rs)
            \<and> set rs \<subseteq> set (created_reviews (fst (serve_all empty_db qs)))
            \<and> (length (created_reviews (fst (serve_all empty_db qs))) \<le> 1000
                 \<longrightarrow> mset rs = mset (created_reviews (fst (serve_all empty_db qs))))
            \<and> (\<forall>r\<in>set rs. map_of (Review_model_dump r) ''created_at''
                 = Some (PDatetime (review_created_at r))))
     \<and> get_status_checks (snd (serve_all empty_db qs))
           = Inr (map StatusCheck_model_dump
                   (take 1000 (created_status_checks (fst (serve_all empty_db qs)))))
     \<and> (\<forall>s. map_of (StatusCheck_model_dump s) ''timestamp''
           = Some (PDatetime (status_timestamp s)))"
proof (intro conjI)
  let ?created = "created_reviews (fst (serve_all empty_db qs))"
  let ?rs = "take 1000 (sort_reviews (sort_options sort_order) ?created)"
  have "get_reviews (snd (serve_all empty_db qs)) sort_order = Inr (map Review_model_dump ?rs)"
    using assms by (rule get_reviews_served)
  moreover have "set ?rs \<subseteq> set ?created"
    using set_take_subset [of 1000 "sort_reviews (sort_options sort_order) ?created"] by simp
  moreover have "length ?created \<le> 1000 \<longrightarrow> mset ?rs = mset ?created"
    by simp
  moreover have "\<forall>r\<in>set ?rs. map_of (Review_model_dump r) ''created_at''
      = Some (PDatetime (review_created_at r))"
    by (simp add: Review_model_dump_def)
  ultimately show "\<exists>rs. get_reviews (snd (serve_all empty_db qs)) sort_order
               = Inr (map Review_model_dump rs)
            \<and> set rs \<subseteq> set ?created
            \<and> (length ?created \<le> 1000 \<longrightarrow> mset rs = mset ?created)
            \<and> (\<forall>r\<in>set rs. map_of (Review_model_dump r) ''created_at''
                 = Some (PDatetime (review_created_at r)))"
    by blast
  show "get_status_checks (snd (serve_all empty_db qs))
           = Inr (map StatusCheck_model_dump
                   (take 1000 (created_status_checks (fst (serve_all empty_db qs)))))"
    using assms by (rule get_status_checks_served)
  show "\<forall>s. map_of (StatusCheck_model_dump s) ''timestamp'' = Some (PDatetime (status_timestamp s))"
    by (simp add: StatusCheck_model_dump_def)
qed

lemma serve_all_sample_requests:
  "fst (serve_all empty_db sample_requests) =
     [Review_response (Inr \<lparr>review_id = [105, 100, 49], review_name = py_str ''Marie'',
        review_rating = 5, review_comment = None, review_created_at = sample_time 1\<rparr>),
      Status_response (Inr \<lparr>status_id = [115], status_client_name = py_str ''web'',
        status_timestamp = sample_time 2\<rparr>)]"
  by (simp add: sample_requests_def sample_review_def post_reviews_valid valid_payload_def
      py_str_def post_status_any split: prod.splits)

theorem listing_returns_creation_time_witness:
  "list_all (\<lambda>q. valid_datetime (request_time q)) sample_requests
   \<and> get_reviews (snd (serve_all empty_db sample_requests)) DATE_DESC =
       Inr [[(''id'', PStr [105, 100, 49]), (''name'', PStr (py_str ''Marie'')),
             (''rating'', PInt 5), (''comment'', PNone),
             (''created_at'', PDatetime (sample_time 1))]]
   \<and> get_status_checks (snd (serve_all empty_db sample_requests)) =
       Inr [[(''id'', PStr [115]), (''client_name'', PStr (py_str ''web'')),
             (''timestamp'', PDatetime (sample_time 2))]]"
proof -
  have v: "\<forall>q\<in>set sample_requests. valid_datetime (request_time q)"
    by (simp add: sample_requests_def sample_review_def valid_sample_time)
  note t = listing_returns_creation_time [OF v, of DATE_DESC]
  let ?r = "\<lparr>review_id = [105, 100, 49], review_name = py_str ''Marie'',
        review_rating = 5, review_comment = None, review_created_at = sample_time 1\<rparr>"
  from t obtain rs where rs:
    "get_reviews (snd (serve_all empty_db sample_requests)) DATE_DESC
       = Inr (map Review_model_dump rs)"
    "length (created_reviews (fst (serve_all empty_db sample_requests))) \<le> 1000
       \<longrightarrow> mset rs = mset (created_reviews (fst (serve_all empty_db sample_requests)))"
    by blast
  from rs(2) have "mset rs = {#?r#}"
    by (simp add: serve_all_sample_requests)
  then have "rs = [?r]"
    by (metis mset_single_iff_right)
  with rs(1) have "get_reviews (snd (serve_all empty_db sample_requests)) DATE_DESC =
       Inr [[(''id'', PStr [105, 100, 49]), (''name'', PStr (py_str ''Marie'')),
             (''rating'', PInt 5), (''comment'', PNone),
             (''created_at'', PDatetime (sample_time 1))]]"
    by (simp add: Review_model_dump_def opt_val_def)
  moreover from t have "get_status_checks (snd (serve_all empty_db sample_requests)) =
       Inr [[(''id'', PStr [115]), (''client_name'', PStr (py_str ''web'')),
             (''timestamp'', PDatetime (sample_time 2))]]"
    by (simp add: serve_all_sample_requests StatusCheck_model_dump_def)
  ultimately show ?thesis
    using v by (simp add: list_all_iff)
qed

subsection \<open>Statistics\<close>

lemma round_half_even_error: "\<bar>of_int (round_half_even x) - x\<bar> \<le> 1 / 2"
proof -
  have "of_int \<lfloor>x\<rfloor> \<le> x" "x < of_int \<lfloor>x\<rfloor> + 1"
    by linarith+
  then show ?thesis
    by (auto simp: round_half_even_def Let_def abs_le_iff)
qed

lemma binary_exponent_le:
  assumes "0 < a" and "0 < b"
  shows "(2::rat) powi binary_exponent a b \<le> of_int a / of_int b"
proof (cases "(2::rat) powi (bitlen a - bitlen b) \<le> of_int a / of_int b")
  case True
  then show ?thesis by (simp add: binary_exponent_def)
next
  case False
  have la: "(2::int) ^ nat (bitlen a - 1) \<le> a" and lb: "b < 2 ^ nat (bitlen b)"
    using bitlen_bounds [OF assms(1)] bitlen_bounds [OF assms(2)] by simp_all
  have pa: "0 < bitlen a" and pb: "0 < bitlen b"
    using assms by (auto simp: bitlen_alt_def)
  have la': "(2::rat) powi (bitlen a - 1) \<le> of_int a"
  proof -
    have "(of_int ((2::int) ^ nat (bitlen a - 1)) :: rat) \<le> of_int a"
      using la by (simp only: of_int_le_iff)
    then show ?thesis using pa by (simp add: power_int_def)
  qed
  have lb': "(of_int b :: rat) \<le> 2 powi bitlen b"
  proof -
    have "(of_int b :: rat) \<le> of_int ((2::int) ^ nat (bitlen b))"
      using lb by (simp only: of_int_le_iff)
    then show ?thesis using pb by (simp add: power_int_def)
  qed
  have "(2::rat) powi (bitlen a - bitlen b - 1) * of_int b \<le>
      2 powi (bitlen a - bitlen b - 1) * 2 powi bitlen b"
    using lb' by (intro mult_left_mono) simp_all
  also have "\<dots> = 2 powi (bitlen a - 1)"
    by (simp add: power_int_add [symmetric])
  also have "\<dots> \<le> of_int a" by (rule la')
  finally have "(2::rat) powi (bitlen a - bitlen b - 1) \<le> of_int a / of_int b"
    using assms(2) by (simp add: pos_le_divide_eq)
  with False show ?thesis by (simp add: binary_exponent_def)
qed

lemma binary64_div_error:
  assumes "0 < a" and "0 < b"
  shows "\<bar>binary64_div a b - of_int a / of_int b\<bar> \<le> 2 powi (binary_exponent a b - 53)"
proof -
  define e where "e = binary_exponent a b"
  define q :: rat where "q = of_int a / of_int b"
  define y where "y = q * 2 powi (52 - e)"
  define p :: rat where "p = 2 powi (e - 52)"
  have fl: "binary64_div a b = of_int (round_half_even y) * p"
    using assms by (simp add: binary64_div_def Let_def e_def q_def y_def p_def)
  have q: "q = y * p"
    by (simp add: y_def p_def power_int_add [symmetric])
  have p: "0 \<le> p" by (simp add: p_def)
  have "binary64_div a b - q = (of_int (round_half_even y) - y) * p"
    by (simp only: fl q left_diff_distrib)
  then have "\<bar>binary64_div a b - q\<bar> = \<bar>of_int (round_half_even y) - y\<bar> * p"
    using p by (simp add: abs_mult)
  also have "\<dots> \<le> (1 / 2) * p"
    using p by (intro mult_right_mono round_half_even_error)
  also have "\<dots> = 2 powi (e - 53)"
    by (simp add: p_def power_int_diff)
  finally show ?thesis
    by (simp only: q_def e_def)
qed

lemma binary64_div_error_small:
  assumes "0 < a" and "0 < b" and "a \<le> 5 * b"
  shows "\<bar>binary64_div a b - of_int a / of_int b\<bar> \<le> 1 / 2 ^ 51"
proof -
  have "(2::rat) powi binary_exponent a b \<le> of_int a / of_int b"
    using assms(1,2) by (rule binary_exponent_le)
  also have "\<dots> \<le> 5"
  proof -
    have "(of_int a :: rat) \<le> of_int (5 * b)"
      using assms(3) by (simp only: of_int_le_iff)
    then show ?thesis using assms(2) by (simp add: pos_divide_le_eq)
  qed
  also have "\<dots> < 2 powi 3" by simp
  finally have "(2::rat) powi binary_exponent a b < 2 powi 3" .
  then have "binary_exponent a b < 3"
    by (rule power_int_le_imp_less_exp [rotated]) simp_all
  then have "(2::rat) powi (binary_exponent a b - 53) \<le> 2 powi (- 51)"
    by (intro power_int_increasing) simp_all
  also have "\<dots> = 1 / 2 ^ 51"
    by (simp add: power_int_minus_divide)
  finally show ?thesis
    using binary64_div_error [OF assms(1,2)] by linarith
qed

lemma py_round1_nearest:
  assumes "0 < s" and "0 < n" and "s \<le> 5 * n" and "n < 2 ^ 46"
  shows "\<bar>py_round1 (binary64_div s n) - of_int s / of_int n\<bar> \<le> 1 / 20"
proof -
  define x where "x = binary64_div s n"
  define k where "k = round_half_even (x * 10)"
  define q :: rat where "q = of_int s / of_int n"
  have n: "(0::rat) < of_int n" using assms(2) by simp
  have "\<bar>x - q\<bar> \<le> 1 / 2 ^ 51"
    unfolding x_def q_def using assms(1-3) by (rule binary64_div_error_small)
  moreover have "\<bar>of_int k - x * 10\<bar> \<le> 1 / 2"
    unfolding k_def by (rule round_half_even_error)
  ultimately have "\<bar>of_int k - q * 10\<bar> \<le> 1 / 2 + 10 / 2 ^ 51"
    by linarith
  then have "\<bar>of_int k - q * 10\<bar> * (2 * of_int n) \<le> (1 / 2 + 10 / 2 ^ 51) * (2 * of_int n)"
    using n by (intro mult_right_mono) simp_all
  moreover have "\<bar>of_int k - q * 10\<bar> * (2 * of_int n) = \<bar>of_int (2 * k * n - 20 * s) :: rat\<bar>"
  proof -
    have "(of_int k - q * 10) * (2 * of_int n) = (of_int (2 * k * n - 20 * s) :: rat)"
      using n by (simp add: q_def field_simps)
    then have "\<bar>(of_int k - q * 10) * (2 * of_int n)\<bar> = \<bar>of_int (2 * k * n - 20 * s) :: rat\<bar>"
      by simp
    then show ?thesis using n by (simp add: abs_mult)
  qed
  moreover have "(1 / 2 + 10 / 2 ^ 51) * (2 * of_int n) < (of_int (n + 1) :: rat)"
  proof -
    have "(of_int n :: rat) < of_int (2 ^ 46)"
      using assms(4) by (simp only: of_int_less_iff)
    then have "(of_int n :: rat) < 2 ^ 46" by simp
    then show ?thesis by (simp add: field_simps)
  qed
  ultimately have "\<bar>of_int (2 * k * n - 20 * s) :: rat\<bar> < of_int (n + 1)"
    by linarith
  then have "\<bar>2 * k * n - 20 * s\<bar> < n + 1"
    by (simp only: of_int_abs [symmetric] of_int_less_iff)
  then have "\<bar>2 * k * n - 20 * s\<bar> \<le> n" by simp
  then have "\<bar>of_int (2 * k * n - 20 * s) :: rat\<bar> \<le> of_int n"
    by (simp only: of_int_abs [symmetric] of_int_le_iff)
  moreover have "(of_int (2 * k * n - 20 * s) :: rat) = (of_int k / 10 - q) * (20 * of_int n)"
    using n by (simp add: q_def field_simps)
  ultimately have "\<bar>of_int k / 10 - q\<bar> * (20 * of_int n) \<le> (of_int n :: rat)"
    using n by (simp add: abs_mult)
  then have "\<bar>of_int k / 10 - q\<bar> \<le> 1 / 20"
    using n by (simp add: field_simps)
  then show ?thesis
    by (simp only: py_round1_def k_def x_def q_def)
qed

lemma fold_group_step:
  assumes "list_all review_within_bounds ds"
  shows "fold group_step ds (s, k, c) =
     (s + sum_list (stored_ratings ds), k + int (length ds), c + int (length ds))"
  using assms
proof (induction ds arbitrary: s k c)
  case Nil
  show ?case by (simp add: stored_ratings_def)
next
  case (Cons d ds)
  from Cons.prems obtain i where i: "map_of d ''rating'' = Some (PInt i)"
    by (auto simp: review_within_bounds_def split: option.splits pyval.splits)
  from Cons.prems have "list_all review_within_bounds ds" by simp
  from Cons.IH [OF this] i show ?case
    by (simp add: stored_ratings_def)
qed

lemma stored_ratings_bounds:
  assumes "list_all review_within_bounds ds"
  shows "int (length ds) \<le> sum_list (stored_ratings ds) \<and>
         sum_list (stored_ratings ds) \<le> 5 * int (length ds)"
  using assms
proof (induction ds)
  case Nil
  show ?case by (simp add: stored_ratings_def)
next
  case (Cons d ds)
  from Cons.prems obtain i where i: "map_of d ''rating'' = Some (PInt i)" "1 \<le> i" "i \<le> 5"
    by (auto simp: review_within_bounds_def split: option.splits pyval.splits)
  from Cons.prems have "list_all review_within_bounds ds" by simp
  from Cons.IH [OF this] i show ?case
    by (simp add: stored_ratings_def)
qed

lemma get_review_stats_bounded:
  assumes "reviews db \<noteq> []" and "list_all review_within_bounds (reviews db)"
  shows "get_review_stats db =
     Inr \<lparr>average_rating =
            py_round1 (binary64_div (sum_list (stored_ratings (reviews db)))
                        (int (length (reviews db)))),
          total_reviews = int (length (reviews db))\<rparr>"
proof -
  have "fold group_step (reviews db) (0, 0, 0) =
      (sum_list (stored_ratings (reviews db)), int (length (reviews db)),
       int (length (reviews db)))"
    using fold_group_step [OF assms(2), of 0 0 0] by simp
  with assms(1) show ?thesis
    by (simp add: get_review_stats_def aggregate_group_def)
qed

lemma binary64_div_19_5: "py_round1 (binary64_div 19 5) = 38 / 10"
  by code_simp


lemma doc_within_bounds:
  "valid_payload p \<Longrightarrow> review_within_bounds
     [(''_id'', PObjectId oid), (''id'', PStr uuid), (''name'', PStr (name p)),
      (''rating'', PInt (rating p)), (''comment'', opt_val (comment p)),
      (''created_at'', PStr (isoformat now))]"
  by (simp add: review_within_bounds_def valid_payload_def opt_val_def split: option.splits)

lemma five_ratings_stats:
  assumes "valid_payload p1" "valid_payload p2" "valid_payload p3" "valid_payload p4"
    "valid_payload p5"
    and "rating p1 = 5" "rating p2 = 4" "rating p3 = 3" "rating p4 = 5" "rating p5 = 2"
  shows "get_review_stats (snd (serve_all empty_db
           [POST_reviews u1 t1 o1 p1, POST_reviews u2 t2 o2 p2, POST_reviews u3 t3 o3 p3,
            POST_reviews u4 t4 o4 p4, POST_reviews u5 t5 o5 p5]))
     = Inr \<lparr>average_rating = 38 / 10, total_reviews = 5\<rparr>"
proof -
  let ?db = "snd (serve_all empty_db
           [POST_reviews u1 t1 o1 p1, POST_reviews u2 t2 o2 p2, POST_reviews u3 t3 o3 p3,
            POST_reviews u4 t4 o4 p4, POST_reviews u5 t5 o5 p5])"
  let ?doc = "\<lambda>oid uuid p now. [(''_id'', PObjectId oid), (''id'', PStr uuid),
      (''name'', PStr (name p)), (''rating'', PInt (rating p)),
      (''comment'', opt_val (comment p)), (''created_at'', PStr (isoformat now))]"
  have db: "reviews ?db = [?doc o1 u1 p1 t1, ?doc o2 u2 p2 t2, ?doc o3 u3 p3 t3,
      ?doc o4 u4 p4 t4, ?doc o5 u5 p5 t5]"
    using assms(1-5) by (simp add: post_reviews_valid empty_db_def)
  have b: "list_all review_within_bounds (reviews ?db)"
    unfolding db using assms(1-5) by (simp add: doc_within_bounds)
  have r: "stored_ratings (reviews ?db) = [5, 4, 3, 5, 2]"
    unfolding db using assms(6-10) by (simp add: stored_ratings_def)
  have ne: "reviews ?db \<noteq> []"
    unfolding db by simp
  have l: "int (length (reviews ?db)) = 5"
    unfolding db by simp
  have su: "sum_list (stored_ratings (reviews ?db)) = 19"
    unfolding r by simp
  show ?thesis
    by (simp only: get_review_stats_bounded [OF ne b] l su binary64_div_19_5)
qed

text \<open>
  C4. Over a non-empty collection of reviews within the bounds of the data model (fewer
  than \<open>2 ^ 46\<close> of them), the statistics are the number of stored reviews and a
  one-decimal number nearest to the arithmetic mean of the stored ratings (at most 0.05
  from it), obtained from the three accumulators of a single pass over the collection.
  After the creation of five reviews rated 5, 4, 3, 5, 2 they are 3.8 and 5.
\<close>

theorem stats_mean_and_count:
  "(reviews db \<noteq> [] \<and> list_all review_within_bounds (reviews db) \<and>
      length (reviews db) < 2 ^ 46 \<longrightarrow>
      (\<exists>avg k. get_review_stats db =
           Inr \<lparr>average_rating = avg, total_reviews = int (length (reviews db))\<rparr>
         \<and> avg = of_int k / 10
         \<and> \<bar>avg - of_int (sum_list (stored_ratings (reviews db)))
                  / of_nat (length (reviews db))\<bar> \<le> 1 / 20))
   \<and> (valid_payload p1 \<and> valid_payload p2 \<and> valid_payload p3 \<and> valid_payload p4 \<and>
      valid_payload p5 \<and> rating p1 = 5 \<and> rating p2 = 4 \<and> rating p3 = 3 \<and> rating p4 = 5 \<and>
      rating p5 = 2 \<longrightarrow>
      get_review_stats (snd (serve_all empty_db
           [POST_reviews u1 t1 o1 p1, POST_reviews u2 t2 o2 p2, POST_reviews u3 t3 o3 p3,
            POST_reviews u4 t4 o4 p4, POST_reviews u5 t5 o5 p5]))
        = Inr \<lparr>average_rating = 38 / 10, total_reviews = 5\<rparr>)"
proof (intro conjI impI)
  assume a: "reviews db \<noteq> [] \<and> list_all review_within_bounds (reviews db) \<and>
      length (reviews db) < 2 ^ 46"
  define s where "s = sum_list (stored_ratings (reviews db))"
  define n where "n = int (length (reviews db))"
  have n: "0 < n" "n < 2 ^ 46"
    using a by (simp_all add: n_def) 
  have "n \<le> s \<and> s \<le> 5 * n"
    unfolding s_def n_def using a by (intro stored_ratings_bounds) simp
  with n have s: "0 < s" "s \<le> 5 * n"
    by simp_all
  have st: "get_review_stats db =
      Inr \<lparr>average_rating = py_round1 (binary64_div s n), total_reviews = n\<rparr>"
    using a by (simp add: get_review_stats_bounded s_def n_def)
  have "\<bar>py_round1 (binary64_div s n) - of_int s / of_int n\<bar> \<le> 1 / 20"
    using s(1) n(1) s(2) n(2) by (rule py_round1_nearest)
  moreover have "(of_int n :: rat) = of_nat (length (reviews db))"
    by (simp add: n_def)
  ultimately have "\<bar>py_round1 (binary64_div s n) - of_int s / of_nat (length (reviews db))\<bar>
      \<le> 1 / 20"
    by simp
  moreover have "py_round1 (binary64_div s n)
      = of_int (round_half_even (binary64_div s n * 10)) / 10"
    by (simp add: py_round1_def)
  ultimately show "\<exists>avg k. get_review_stats db =
           Inr \<lparr>average_rating = avg, total_reviews = int (length (reviews db))\<rparr>
         \<and> avg = of_int k / 10
         \<and> \<bar>avg - of_int (sum_list (stored_ratings (reviews db)))
                  / of_nat (length (reviews db))\<bar> \<le> 1 / 20"
    using st unfolding s_def n_def by blast
next
  assume "valid_payload p1 \<and> valid_payload p2 \<and> valid_payload p3 \<and> valid_payload p4 \<and>
      valid_payload p5 \<and> rating p1 = 5 \<and> rating p2 = 4 \<and> rating p3 = 3 \<and> rating p4 = 5 \<and>
      rating p5 = 2"
  then show "get_review_stats (snd (serve_all empty_db
           [POST_reviews u1 t1 o1 p1, POST_reviews u2 t2 o2 p2, POST_reviews u3 t3 o3 p3,
            POST_reviews u4 t4 o4 p4, POST_reviews u5 t5 o5 p5]))
        = Inr \<lparr>average_rating = 38 / 10, total_reviews = 5\<rparr>"
    by (intro five_ratings_stats) simp_all
qed

theorem stats_mean_and_count_witness:
  "reviews (snd (serve_all empty_db five_reviews)) \<noteq> []
   \<and> list_all review_within_bounds (reviews (snd (serve_all empty_db five_reviews)))
   \<and> length (reviews (snd (serve_all empty_db five_reviews))) < 2 ^ 46
   \<and> map (\<lambda>q. case q of POST_reviews u t oid p \<Rightarrow> rating p | _ \<Rightarrow> 0) five_reviews
       = [5, 4, 3, 5, 2]
   \<and> get_review_stats (snd (serve_all empty_db five_reviews))
       = Inr \<lparr>average_rating = 38 / 10, total_reviews = 5\<rparr>"
proof -
  let ?p = "\<lambda>r. \<lparr>name = py_str ''Marie'', rating = r, comment = None\<rparr>"
  have v: "valid_payload (?p 5)" "valid_payload (?p 4)" "valid_payload (?p 3)"
    "valid_payload (?p 2)"
    by (simp_all add: valid_payload_def py_str_def)
  have five: "five_reviews =
      [POST_reviews [105, 100, 48 + 1] (sample_time 1) 1 (?p 5),
       POST_reviews [105, 100, 48 + 2] (sample_time 2) 2 (?p 4),
       POST_reviews [105, 100, 48 + 3] (sample_time 3) 3 (?p 3),
       POST_reviews [105, 100, 48 + 4] (sample_time 4) 4 (?p 5),
       POST_reviews [105, 100, 48 + 5] (sample_time 5) 5 (?p 2)]"
    by (simp only: five_reviews_def sample_review_def)
  note t = stats_mean_and_count [of "snd (serve_all empty_db five_reviews)"
      "?p 5" "?p 4" "?p 3" "?p 5" "?p 2"
      "[105, 100, 48 + 1]" "sample_time 1" 1 "[105, 100, 48 + 2]" "sample_time 2" 2
      "[105, 100, 48 + 3]" "sample_time 3" 3 "[105, 100, 48 + 4]" "sample_time 4" 4
      "[105, 100, 48 + 5]" "sample_time 5" 5]
  have st: "get_review_stats (snd (serve_all empty_db five_reviews))
       = Inr \<lparr>average_rating = 38 / 10, total_reviews = 5\<rparr>"
    using t v unfolding five by simp
  have b: "list_all review_within_bounds (reviews (snd (serve_all empty_db five_reviews)))"
    by (rule serve_all_within_bounds) (simp add: empty_db_def)
  have l: "length (reviews (snd (serve_all empty_db five_reviews))) = 5"
    unfolding five using v by (simp add: post_reviews_valid empty_db_def)
  have r: "map (\<lambda>q. case q of POST_reviews u t oid p \<Rightarrow> rating p | _ \<Rightarrow> 0) five_reviews
       = [5, 4, 3, 5, 2]"
    unfolding five by simp
  from l have ne: "reviews (snd (serve_all empty_db five_reviews)) \<noteq> []"
    by auto
  from st b l r ne show ?thesis
    by simp
qed

subsection \<open>Order of the stored timestamps\<close>

lemma lex_10:
  fixes qa ra qb rb :: nat
  assumes "ra < 10" and "rb < 10"
  shows "(10 * qa + ra < 10 * qb + rb) = (qa < qb \<or> (qa = qb \<and> ra < rb))"
    and "(10 * qa + ra = 10 * qb + rb) = (qa = qb \<and> ra = rb)"
proof -
  show "(10 * qa + ra < 10 * qb + rb) = (qa < qb \<or> (qa = qb \<and> ra < rb))"
    using assms by linarith
  show "(10 * qa + ra = 10 * qb + rb) = (qa = qb \<and> ra = rb)"
  proof
    assume e: "10 * qa + ra = 10 * qb + rb"
    with assms have "qa = qb" by linarith
    with e show "qa = qb \<and> ra = rb" by simp
  qed simp
qed

lemma less_div_mod_10:
  "(a::nat) < b \<longleftrightarrow> a div 10 < b div 10 \<or> (a div 10 = b div 10 \<and> a mod 10 < b mod 10)"
proof -
  have "(10 * (a div 10) + a mod 10 < 10 * (b div 10) + b mod 10) =
      (a div 10 < b div 10 \<or> (a div 10 = b div 10 \<and> a mod 10 < b mod 10))"
    by (rule lex_10) simp_all
  then show ?thesis by (simp only: mult_div_mod_eq)
qed

lemma eq_div_mod_10:
  "(a::nat) = b \<longleftrightarrow> a div 10 = b div 10 \<and> a mod 10 = b mod 10"
proof -
  have "(10 * (a div 10) + a mod 10 = 10 * (b div 10) + b mod 10) =
      (a div 10 = b div 10 \<and> a mod 10 = b mod 10)"
    by (rule lex_10) simp_all
  then show ?thesis by (simp only: mult_div_mod_eq)
qed



lemma pad_less:
  assumes "a < 10 ^ k" and "b < 10 ^ k"
  shows "(pad k a @ xs < pad k b @ ys) = (a < b \<or> (a = b \<and> xs < ys))"
  using assms
proof (induction k arbitrary: a b xs ys)
  case 0
  then show ?case by simp
next
  case (Suc k)
  from Suc.prems have "a < 10 ^ k * 10" "b < 10 ^ k * 10"
    by simp_all
  then have d: "a div 10 < 10 ^ k" "b div 10 < 10 ^ k"
    by (simp_all only: less_mult_imp_div_less)
  have "(pad (Suc k) a @ xs < pad (Suc k) b @ ys) =
      (pad k (a div 10) @ ((48 + a mod 10) # xs) < pad k (b div 10) @ ((48 + b mod 10) # ys))"
    by simp
  also have "\<dots> = (a div 10 < b div 10 \<or>
      (a div 10 = b div 10 \<and> (48 + a mod 10) # xs < (48 + b mod 10) # ys))"
    using d by (rule Suc.IH)
  also have "\<dots> = (a div 10 < b div 10 \<or>
      (a div 10 = b div 10 \<and> (a mod 10 < b mod 10 \<or> (a mod 10 = b mod 10 \<and> xs < ys))))"
    by simp
  also have "\<dots> = (a < b \<or> (a = b \<and> xs < ys))"
  proof -
    have "a < b \<longleftrightarrow> a div 10 < b div 10 \<or> (a div 10 = b div 10 \<and> a mod 10 < b mod 10)"
      by (rule less_div_mod_10)
    moreover have "a = b \<longleftrightarrow> a div 10 = b div 10 \<and> a mod 10 = b mod 10"
      by (rule eq_div_mod_10)
    ultimately show ?thesis by blast
  qed
  finally show ?case .
qed

lemma fraction_less:
  assumes "a < 10 ^ 6" and "b < 10 ^ 6"
  shows "(fraction a @ utc_suffix < fraction b @ utc_suffix) = (a < b)"
proof -
  have "(46 # pad 6 a @ utc_suffix < 46 # pad 6 b @ utc_suffix) = (a < b)"
    using pad_less [OF assms, of utc_suffix utc_suffix] by simp
  then show ?thesis
    by (auto simp: fraction_def utc_suffix_def)
qed

lemma datetime_key_less:
  "(datetime_key a < datetime_key b) =
     (year a < year b \<or> (year a = year b \<and>
     (month a < month b \<or> (month a = month b \<and>
     (day a < day b \<or> (day a = day b \<and>
     (hour a < hour b \<or> (hour a = hour b \<and>
     (minute a < minute b \<or> (minute a = minute b \<and>
     (second a < second b \<or> (second a = second b \<and>
      microsecond a < microsecond b))))))))))))"
  by (simp add: datetime_key_def)

lemma isoformat_less:
  assumes "valid_datetime a" and "valid_datetime b"
  shows "(isoformat a < isoformat b) = (datetime_key a < datetime_key b)"
proof -
  have a: "year a < 10 ^ 4" "month a < 10 ^ 2" "day a < 10 ^ 2" "hour a < 10 ^ 2"
    "minute a < 10 ^ 2" "second a < 10 ^ 2" "microsecond a < 10 ^ 6"
    using assms(1) by (auto simp: valid_datetime_def days_in_month_def split: if_splits)
  have b: "year b < 10 ^ 4" "month b < 10 ^ 2" "day b < 10 ^ 2" "hour b < 10 ^ 2"
    "minute b < 10 ^ 2" "second b < 10 ^ 2" "microsecond b < 10 ^ 6"
    using assms(2) by (auto simp: valid_datetime_def days_in_month_def split: if_splits)
  let ?f = "\<lambda>d. fraction (microsecond d) @ utc_suffix"
  let ?s = "\<lambda>d. pad 2 (second d) @ ?f d"
  let ?mi = "\<lambda>d. pad 2 (minute d) @ 58 # ?s d"
  let ?h = "\<lambda>d. pad 2 (hour d) @ 58 # ?mi d"
  let ?d = "\<lambda>d. pad 2 (day d) @ 84 # ?h d"
  let ?mo = "\<lambda>d. pad 2 (month d) @ 45 # ?d d"
  have e6: "(?s a < ?s b) = (second a < second b \<or> (second a = second b \<and>
      microsecond a < microsecond b))"
    by (simp only: pad_less [OF a(6) b(6)] fraction_less [OF a(7) b(7)])
  have e5: "(?mi a < ?mi b) = (minute a < minute b \<or> (minute a = minute b \<and> ?s a < ?s b))"
    by (simp only: pad_less [OF a(5) b(5)] Cons_less_Cons) simp
  have e4: "(?h a < ?h b) = (hour a < hour b \<or> (hour a = hour b \<and> ?mi a < ?mi b))"
    by (simp only: pad_less [OF a(4) b(4)] Cons_less_Cons) simp
  have e3: "(?d a < ?d b) = (day a < day b \<or> (day a = day b \<and> ?h a < ?h b))"
    by (simp only: pad_less [OF a(3) b(3)] Cons_less_Cons) simp
  have e2: "(?mo a < ?mo b) = (month a < month b \<or> (month a = month b \<and> ?d a < ?d b))"
    by (simp only: pad_less [OF a(2) b(2)] Cons_less_Cons) simp
  have e1: "(isoformat a < isoformat b) = (year a < year b \<or> (year a = year b \<and> ?mo a < ?mo b))"
    unfolding isoformat_def
    by (simp only: pad_less [OF a(1) b(1)] Cons_less_Cons) simp
  show ?thesis
    by (simp only: e1 e2 e3 e4 e5 e6 datetime_key_less)
qed

lemma isoformat_le:
  assumes "valid_datetime a" and "valid_datetime b"
  shows "(isoformat a \<le> isoformat b) = (datetime_key a \<le> datetime_key b)"
  using isoformat_less [OF assms(2,1)] by (simp only: linorder_not_less [symmetric])

subsection \<open>Sorting on two keys\<close>

lemma sorted_wrt_filter_imp:
  "sorted_wrt Q (filter P xs) \<Longrightarrow> sorted_wrt (\<lambda>a b. P a \<and> P b \<longrightarrow> Q a b) xs"
  by (induction xs) (auto split: if_splits)

lemma sorted_wrt_two_keys:
  assumes p: "sorted_wrt P ys"
    and q: "\<And>k. sorted_wrt Q (filter (\<lambda>y. f y = k) ys)"
  shows "sorted_wrt (\<lambda>a b. P a b \<and> (f a = f b \<longrightarrow> Q a b)) ys"
  unfolding sorted_wrt_iff_nth_less
proof (intro allI impI conjI)
  fix i j assume ij: "i < j" "j < length ys"
  from p ij show "P (ys ! i) (ys ! j)"
    by (simp add: sorted_wrt_iff_nth_less)
  assume e: "f (ys ! i) = f (ys ! j)"
  have "sorted_wrt (\<lambda>a b. f a = f (ys ! i) \<and> f b = f (ys ! i) \<longrightarrow> Q a b) ys"
    using q [of "f (ys ! i)"] by (rule sorted_wrt_filter_imp)
  with ij e show "Q (ys ! i) (ys ! j)"
    by (simp add: sorted_wrt_iff_nth_less)
qed

lemma sort_asc_sorted: "sorted_wrt (\<lambda>a b. f a \<le> f b) (sort_key f xs)"
  using sorted_sort_key [of f xs] by (simp only: sorted_map)

lemma sort_desc_sorted: "sorted_wrt (\<lambda>a b. f b \<le> f a) (rev (sort_key f (rev xs)))"
  using sort_asc_sorted [of f "rev xs"] by (simp only: sorted_wrt_rev)

lemma sort_desc_stable:
  "filter (\<lambda>y. f y = k) (rev (sort_key f (rev xs))) = filter (\<lambda>y. f y = k) xs"
  by (simp only: rev_filter [symmetric] sort_key_stable rev_rev_ident)

lemma rating_key:
  "bson_key (map_of (review_document r) ''rating'') = (1, review_rating r, [])"
  by (simp add: review_document_def Review_model_dump_def)

lemma created_at_key:
  "bson_key (map_of (review_document r) ''created_at'') = (2, 0, isoformat (review_created_at r))"
  by (simp add: review_document_def Review_model_dump_def)

lemma sort_by_created_at_desc:
  assumes "\<forall>r\<in>set rs. valid_datetime (review_created_at r)"
  shows "sorted_wrt newest_first (sort_reviews_by (''created_at'', -1) rs)"
proof -
  let ?ys = "sort_reviews_by (''created_at'', -1) rs"
  have "sorted_wrt (\<lambda>a b. isoformat (review_created_at b) \<le> isoformat (review_created_at a)) ?ys"
    using sort_desc_sorted [of "\<lambda>r. bson_key (map_of (review_document r) ''created_at'')" rs]
    by (simp add: created_at_key)
  moreover have "set ?ys = set rs" by simp
  ultimately show ?thesis
    using assms
    by (auto simp: newest_first_def isoformat_le elim!: sorted_wrt_mono_rel [rotated])
qed

lemma rating_desc_sorted:
  assumes "\<forall>r\<in>set rs. valid_datetime (review_created_at r)"
  shows "sorted_wrt rating_desc_order (sort_reviews (sort_options RATING_DESC) rs)"
proof -
  let ?zs = "sort_reviews_by (''created_at'', -1) rs"
  let ?f = "\<lambda>r. bson_key (map_of (review_document r) ''rating'')"
  let ?ys = "rev (sort_key ?f (rev ?zs))"
  have ys: "sort_reviews (sort_options RATING_DESC) rs = ?ys"
    by (simp add: sort_reviews_def sort_options_def)
  have z: "sorted_wrt newest_first ?zs"
    using assms by (rule sort_by_created_at_desc)
  have "sorted_wrt (\<lambda>a b. ?f b \<le> ?f a \<and> (?f a = ?f b \<longrightarrow> newest_first a b)) ?ys"
  proof (rule sorted_wrt_two_keys)
    show "sorted_wrt (\<lambda>a b. ?f b \<le> ?f a) ?ys" by (rule sort_desc_sorted)
    show "sorted_wrt newest_first (filter (\<lambda>y. ?f y = k) ?ys)" for k
      unfolding sort_desc_stable using z by (rule sorted_wrt_filter)
  qed
  then have "sorted_wrt rating_desc_order ?ys"
    by (rule sorted_wrt_mono_rel [rotated]) (auto simp: rating_key rating_desc_order_def)
  then show ?thesis by (simp only: ys)
qed

lemma rating_asc_sorted:
  assumes "\<forall>r\<in>set rs. valid_datetime (review_created_at r)"
  shows "sorted_wrt rating_asc_order (sort_reviews (sort_options RATING_ASC) rs)"
proof -
  let ?zs = "sort_reviews_by (''created_at'', -1) rs"
  let ?f = "\<lambda>r. bson_key (map_of (review_document r) ''rating'')"
  let ?ys = "sort_key ?f ?zs"
  have ys: "sort_reviews (sort_options RATING_ASC) rs = ?ys"
    by (simp add: sort_reviews_def sort_options_def)
  have z: "sorted_wrt newest_first ?zs"
    using assms by (rule sort_by_created_at_desc)
  have "sorted_wrt (\<lambda>a b. ?f a \<le> ?f b \<and> (?f a = ?f b \<longrightarrow> newest_first a b)) ?ys"
  proof (rule sorted_wrt_two_keys)
    show "sorted_wrt (\<lambda>a b. ?f a \<le> ?f b) ?ys" by (rule sort_asc_sorted)
    show "sorted_wrt newest_first (filter (\<lambda>y. ?f y = k) ?ys)" for k
      unfolding sort_key_stable using z by (rule sorted_wrt_filter)
  qed
  then have "sorted_wrt rating_asc_order ?ys"
    by (rule sorted_wrt_mono_rel [rotated]) (auto simp: rating_key rating_asc_order_def)
  then show ?thesis by (simp only: ys)
qed

lemma isoformat_order:
  assumes "datetime_key a < datetime_key b" and "valid_datetime a" and "valid_datetime b"
  shows "isoformat a \<le> isoformat b" and "\<not> isoformat b \<le> isoformat a"
  using assms by (simp_all add: isoformat_le)

lemma five_reviews_rating_desc:
  assumes v: "valid_datetime t1" "valid_datetime t2" "valid_datetime t3" "valid_datetime t4"
      "valid_datetime t5"
    and o: "datetime_key t1 < datetime_key t2" "datetime_key t2 < datetime_key t3"
      "datetime_key t3 < datetime_key t4" "datetime_key t4 < datetime_key t5"
    and r: "review_rating r1 = 5" "review_rating r2 = 4" "review_rating r3 = 3"
      "review_rating r4 = 5" "review_rating r5 = 2"
    and c: "review_created_at r1 = t1" "review_created_at r2 = t2" "review_created_at r3 = t3"
      "review_created_at r4 = t4" "review_created_at r5 = t5"
  shows "sort_reviews (sort_options RATING_DESC) [r1, r2, r3, r4, r5] = [r4, r1, r2, r3, r5]"
proof -
  have lt: "datetime_key t1 < datetime_key t3" "datetime_key t1 < datetime_key t4"
    "datetime_key t1 < datetime_key t5" "datetime_key t2 < datetime_key t4"
    "datetime_key t2 < datetime_key t5" "datetime_key t3 < datetime_key t5"
    using o by auto
  note le = isoformat_order [OF o(1) v(1) v(2)] isoformat_order [OF o(2) v(2) v(3)]
    isoformat_order [OF o(3) v(3) v(4)] isoformat_order [OF o(4) v(4) v(5)]
    isoformat_order [OF lt(1) v(1) v(3)] isoformat_order [OF lt(2) v(1) v(4)]
    isoformat_order [OF lt(3) v(1) v(5)] isoformat_order [OF lt(4) v(2) v(4)]
    isoformat_order [OF lt(5) v(2) v(5)] isoformat_order [OF lt(6) v(3) v(5)]
  have s1: "sort_reviews_by (''created_at'', -1) [r1, r2, r3, r4, r5] = [r5, r4, r3, r2, r1]"
    by (simp add: created_at_key c le)
  have s2: "sort_reviews_by (''rating'', -1) [r5, r4, r3, r2, r1] = [r4, r1, r2, r3, r5]"
    by (simp add: rating_key r)
  show ?thesis
    by (simp add: sort_reviews_def sort_options_def s1 s2 del: sort_reviews_by.simps)
qed

lemma created_five:
  assumes "valid_payload p1" "valid_payload p2" "valid_payload p3" "valid_payload p4"
    "valid_payload p5"
  shows "created_reviews (fst (serve_all empty_db
           [POST_reviews u1 t1 o1 p1, POST_reviews u2 t2 o2 p2, POST_reviews u3 t3 o3 p3,
            POST_reviews u4 t4 o4 p4, POST_reviews u5 t5 o5 p5]))
     = [review_of u1 t1 p1, review_of u2 t2 p2, review_of u3 t3 p3, review_of u4 t4 p4,
        review_of u5 t5 p5]"
  using assms by (simp add: post_reviews_valid review_of_def)

lemma rating_listing_sorted:
  assumes "\<forall>q\<in>set qs. valid_datetime (request_time q)"
    and "sorted_wrt ord (sort_reviews (sort_options sort_order)
           (created_reviews (fst (serve_all empty_db qs))))"
  shows "\<exists>rs. get_reviews (snd (serve_all empty_db qs)) sort_order
             = Inr (map Review_model_dump rs)
          \<and> set rs \<subseteq> set (created_reviews (fst (serve_all empty_db qs)))
          \<and> (length (created_reviews (fst (serve_all empty_db qs))) \<le> 1000
               \<longrightarrow> mset rs = mset (created_reviews (fst (serve_all empty_db qs))))
          \<and> sorted_wrt ord rs"
proof -
  let ?created = "created_reviews (fst (serve_all empty_db qs))"
  let ?rs = "take 1000 (sort_reviews (sort_options sort_order) ?created)"
  have "get_reviews (snd (serve_all empty_db qs)) sort_order = Inr (map Review_model_dump ?rs)"
    using assms(1) by (rule get_reviews_served)
  moreover have "set ?rs \<subseteq> set ?created"
    using set_take_subset [of 1000 "sort_reviews (sort_options sort_order) ?created"] by simp
  moreover have "length ?created \<le> 1000 \<longrightarrow> mset ?rs = mset ?created"
    by simp
  moreover have "sorted_wrt ord ?rs"
    using assms(2) by (rule sorted_wrt_take)
  ultimately show ?thesis by blast
qed

lemma created_times_valid:
  assumes "\<forall>q\<in>set qs. valid_datetime (request_time q)"
  shows "\<forall>r\<in>set (created_reviews (fst (serve_all db qs))). valid_datetime (review_created_at r)"
proof
  fix r assume "r \<in> set (created_reviews (fst (serve_all db qs)))"
  then have "review_created_at r \<in> request_time ` set qs"
    by (rule serve_all_review_times)
  with assms show "valid_datetime (review_created_at r)" by auto
qed

text \<open>
  C3. After any sequence of creation requests, the listing sorted by \<^verbatim>\<open>rating_desc\<close> is
  made of the created records (all of them while there are at most 1000) ordered by
  rating, higher first, and among equal ratings by creation time, newer first; the one
  sorted by \<^verbatim>\<open>rating_asc\<close> is ordered by rating, lower first, with the same newer-first
  tie-break. In particular, five reviews rated 5, 4, 3, 5, 2 created at increasing times
  are listed by \<^verbatim>\<open>rating_desc\<close> as the fourth, the first, the second, the third and the
  fifth: ratings 5, 5, 4, 3, 2, the newer of the two 5-rated ones first.
\<close>

theorem rating_listing_order:
  "((\<forall>q\<in>set qs. valid_datetime (request_time q)) \<longrightarrow>
      (\<exists>rs. get_reviews (snd (serve_all empty_db qs)) RATING_DESC
               = Inr (map Review_model_dump rs)
           \<and> set rs \<subseteq> set (created_reviews (fst (serve_all empty_db qs)))
           \<and> (length (created_reviews (fst (serve_all empty_db qs))) \<le> 1000
                \<longrightarrow> mset rs = mset (created_reviews (fst (serve_all empty_db qs))))
           \<and> sorted_wrt rating_desc_order rs)
    \<and> (\<exists>rs. get_reviews (snd (serve_all empty_db qs)) RATING_ASC
               = Inr (map Review_model_dump rs)
           \<and> set rs \<subseteq> set (created_reviews (fst (serve_all empty_db qs)))
           \<and> (length (created_reviews (fst (serve_all empty_db qs))) \<le> 1000
                \<longrightarrow> mset rs = mset (created_reviews (fst (serve_all empty_db qs))))
           \<and> sorted_wrt rating_asc_order rs))
   \<and> (valid_payload p1 \<and> valid_payload p2 \<and> valid_payload p3 \<and> valid_payload p4 \<and>
      valid_payload p5 \<and> rating p1 = 5 \<and> rating p2 = 4 \<and> rating p3 = 3 \<and> rating p4 = 5 \<and>
      rating p5 = 2 \<and> valid_datetime t1 \<and> valid_datetime t2 \<and> valid_datetime t3 \<and>
      valid_datetime t4 \<and> valid_datetime t5 \<and> datetime_key t1 < datetime_key t2 \<and>
      datetime_key t2 < datetime_key t3 \<and> datetime_key t3 < datetime_key t4 \<and>
      datetime_key t4 < datetime_key t5 \<longrightarrow>
      get_reviews (snd (serve_all empty_db
           [POST_reviews u1 t1 o1 p1, POST_reviews u2 t2 o2 p2, POST_reviews u3 t3 o3 p3,
            POST_reviews u4 t4 o4 p4, POST_reviews u5 t5 o5 p5])) RATING_DESC
        = Inr (map Review_model_dump
                [review_of u4 t4 p4, review_of u1 t1 p1, review_of u2 t2 p2,
                 review_of u3 t3 p3, review_of u5 t5 p5])
      \<and> map review_rating [review_of u4 t4 p4, review_of u1 t1 p1, review_of u2 t2 p2,
                 review_of u3 t3 p3, review_of u5 t5 p5] = [5, 5, 4, 3, 2])"
proof (intro conjI impI)
  assume v: "\<forall>q\<in>set qs. valid_datetime (request_time q)"
  let ?created = "created_reviews (fst (serve_all empty_db qs))"
  have cv: "\<forall>r\<in>set ?created. valid_datetime (review_created_at r)"
    using v by (rule created_times_valid)
  show "\<exists>rs. get_reviews (snd (serve_all empty_db qs)) RATING_DESC
               = Inr (map Review_model_dump rs)
           \<and> set rs \<subseteq> set ?created
           \<and> (length ?created \<le> 1000 \<longrightarrow> mset rs = mset ?created)
           \<and> sorted_wrt rating_desc_order rs"
    using v rating_desc_sorted [OF cv] by (rule rating_listing_sorted)
  show "\<exists>rs. get_reviews (snd (serve_all empty_db qs)) RATING_ASC
               = Inr (map Review_model_dump rs)
           \<and> set rs \<subseteq> set ?created
           \<and> (length ?created \<le> 1000 \<longrightarrow> mset rs = mset ?created)
           \<and> sorted_wrt rating_asc_order rs"
    using v rating_asc_sorted [OF cv] by (rule rating_listing_sorted)
next
  let ?qs = "[POST_reviews u1 t1 o1 p1, POST_reviews u2 t2 o2 p2, POST_reviews u3 t3 o3 p3,
            POST_reviews u4 t4 o4 p4, POST_reviews u5 t5 o5 p5]"
  assume a: "valid_payload p1 \<and> valid_payload p2 \<and> valid_payload p3 \<and> valid_payload p4 \<and>
      valid_payload p5 \<and> rating p1 = 5 \<and> rating p2 = 4 \<and> rating p3 = 3 \<and> rating p4 = 5 \<and>
      rating p5 = 2 \<and> valid_datetime t1 \<and> valid_datetime t2 \<and> valid_datetime t3 \<and>
      valid_datetime t4 \<and> valid_datetime t5 \<and> datetime_key t1 < datetime_key t2 \<and>
      datetime_key t2 < datetime_key t3 \<and> datetime_key t3 < datetime_key t4 \<and>
      datetime_key t4 < datetime_key t5"
  then have v: "\<forall>q\<in>set ?qs. valid_datetime (request_time q)"
    by simp
  have c: "created_reviews (fst (serve_all empty_db ?qs)) =
      [review_of u1 t1 p1, review_of u2 t2 p2, review_of u3 t3 p3, review_of u4 t4 p4,
       review_of u5 t5 p5]"
    using a by (intro created_five) simp_all
  have s: "sort_reviews (sort_options RATING_DESC)
      [review_of u1 t1 p1, review_of u2 t2 p2, review_of u3 t3 p3, review_of u4 t4 p4,
       review_of u5 t5 p5] =
      [review_of u4 t4 p4, review_of u1 t1 p1, review_of u2 t2 p2, review_of u3 t3 p3,
       review_of u5 t5 p5]"
    using a by (intro five_reviews_rating_desc) (simp_all add: review_of_def)
  show "get_reviews (snd (serve_all empty_db ?qs)) RATING_DESC
        = Inr (map Review_model_dump
                [review_of u4 t4 p4, review_of u1 t1 p1, review_of u2 t2 p2,
                 review_of u3 t3 p3, review_of u5 t5 p5])"
    by (simp only: get_reviews_served [OF v] c s) simp
  show "map review_rating [review_of u4 t4 p4, review_of u1 t1 p1, review_of u2 t2 p2,
                 review_of u3 t3 p3, review_of u5 t5 p5] = [5, 5, 4, 3, 2]"
    using a by (simp add: review_of_def)
qed

theorem rating_listing_order_witness:
  "list_all (\<lambda>q. valid_datetime (request_time q)) five_reviews
   \<and> datetime_key (sample_time 1) < datetime_key (sample_time 2)
   \<and> datetime_key (sample_time 2) < datetime_key (sample_time 3)
   \<and> datetime_key (sample_time 3) < datetime_key (sample_time 4)
   \<and> datetime_key (sample_time 4) < datetime_key (sample_time 5)
   \<and> get_reviews (snd (serve_all empty_db five_reviews)) RATING_DESC
       = Inr (map Review_model_dump
           [review_of [105, 100, 52] (sample_time 4)
              \<lparr>name = py_str ''Marie'', rating = 5, comment = None\<rparr>,
            review_of [105, 100, 49] (sample_time 1)
              \<lparr>name = py_str ''Marie'', rating = 5, comment = None\<rparr>,
            review_of [105, 100, 50] (sample_time 2)
              \<lparr>name = py_str ''Marie'', rating = 4, comment = None\<rparr>,
            review_of [105, 100, 51] (sample_time 3)
              \<lparr>name = py_str ''Marie'', rating = 3, comment = None\<rparr>,
            review_of [105, 100, 53] (sample_time 5)
              \<lparr>name = py_str ''Marie'', rating = 2, comment = None\<rparr>])
   \<and> (\<exists>rs. get_reviews (snd (serve_all empty_db five_reviews)) RATING_ASC
              = Inr (map Review_model_dump rs)
          \<and> sorted_wrt rating_asc_order rs)"
proof -
  let ?p = "\<lambda>r. \<lparr>name = py_str ''Marie'', rating = r, comment = None\<rparr>"
  have vp: "valid_payload (?p 5)" "valid_payload (?p 4)" "valid_payload (?p 3)"
    "valid_payload (?p 2)"
    by (simp_all add: valid_payload_def py_str_def)
  have five: "five_reviews =
      [POST_reviews [105, 100, 49] (sample_time 1) 1 (?p 5),
       POST_reviews [105, 100, 50] (sample_time 2) 2 (?p 4),
       POST_reviews [105, 100, 51] (sample_time 3) 3 (?p 3),
       POST_reviews [105, 100, 52] (sample_time 4) 4 (?p 5),
       POST_reviews [105, 100, 53] (sample_time 5) 5 (?p 2)]"
    by (simp add: five_reviews_def sample_review_def)
  have vt: "valid_datetime (sample_time 1)" "valid_datetime (sample_time 2)"
    "valid_datetime (sample_time 3)" "valid_datetime (sample_time 4)"
    "valid_datetime (sample_time 5)"
    by (simp_all add: valid_sample_time)
  have v: "\<forall>q\<in>set five_reviews. valid_datetime (request_time q)"
    unfolding five using vt by simp
  have o: "datetime_key (sample_time 1) < datetime_key (sample_time 2)"
    "datetime_key (sample_time 2) < datetime_key (sample_time 3)"
    "datetime_key (sample_time 3) < datetime_key (sample_time 4)"
    "datetime_key (sample_time 4) < datetime_key (sample_time 5)"
    by (simp_all add: datetime_key_def sample_time_def)
  note t = rating_listing_order [of five_reviews "?p 5" "?p 4" "?p 3" "?p 5" "?p 2"
      "sample_time 1" "sample_time 2" "sample_time 3" "sample_time 4" "sample_time 5"
      "[105, 100, 49]" 1 "[105, 100, 50]" 2 "[105, 100, 51]" 3 "[105, 100, 52]" 4
      "[105, 100, 53]" 5]
  from t v have asc: "\<exists>rs. get_reviews (snd (serve_all empty_db five_reviews)) RATING_ASC
              = Inr (map Review_model_dump rs) \<and> sorted_wrt rating_asc_order rs"
    by blast
  from t vp vt o have "get_reviews (snd (serve_all empty_db five_reviews)) RATING_DESC
       = Inr (map Review_model_dump
           [review_of [105, 100, 52] (sample_time 4) (?p 5),
            review_of [105, 100, 49] (sample_time 1) (?p 5),
            review_of [105, 100, 50] (sample_time 2) (?p 4),
            review_of [105, 100, 51] (sample_time 3) (?p 3),
            review_of [105, 100, 53] (sample_time 5) (?p 2)])"
    unfolding five by simp
  moreover from v have "list_all (\<lambda>q. valid_datetime (request_time q)) five_reviews"
    by (simp only: list_all_iff)
  ultimately show ?thesis
    using o asc by blast
qed

end
